theory Spec2Isabelle
  imports Complex_Main
begin

section \<open>Data model (types.ts)\<close>

text \<open>
  The decoded audio of a chapter is an opaque \<^verbatim>\<open>AudioBuffer\<close> of the Web Audio API; the
  only property the program reads is its duration in seconds. JavaScript numbers that
  measure time and progress are modelled as real numbers (no rounding), chapter indices
  and counts as natural numbers.
\<close>

record AudioBuffer =
  duration :: real

datatype StoryStyle = GUIDE | CHILDREN | HISTORICAL | MYTHOLOGY

record RouteDetails =
  startAddress :: string
  endAddress :: string
  distance :: string
  durationText :: string
  durationSeconds :: real
  travelMode :: string
  voiceName :: string
  storyStyle :: StoryStyle
  withFamily :: bool
  kidsCount :: nat

text \<open>
  \<^verbatim>\<open>StorySegment\<close>: the fields \<^verbatim>\<open>index\<close> (1-based), \<^verbatim>\<open>text\<close> and \<^verbatim>\<open>audioBuffer\<close>
  (\<^verbatim>\<open>null\<close> is \<open>None\<close>).
\<close>

record StorySegment =
  index :: nat
  segText :: string
  audioBuffer :: "AudioBuffer option"

record AudioStory =
  totalSegmentsEstimate :: nat
  outline :: "string list"
  segments :: "StorySegment list"
  landmarkImages :: "string list"

datatype AppState =
  PLANNING | CALCULATING_ROUTE | ROUTE_CONFIRMED | GENERATING_INITIAL_SEGMENT | READY_TO_PLAY | PLAYING

text \<open>The numeric value of the TypeScript enum, which the program compares with \<^verbatim>\<open><\<close>.\<close>

fun AppState_value :: "AppState \<Rightarrow> nat" where
  "AppState_value PLANNING = 0"
| "AppState_value CALCULATING_ROUTE = 1"
| "AppState_value ROUTE_CONFIRMED = 2"
| "AppState_value GENERATING_INITIAL_SEGMENT = 3"
| "AppState_value READY_TO_PLAY = 4"
| "AppState_value PLAYING = 5"

section \<open>Asynchronous requests and \<^verbatim>\<open>withTimeout\<close>\<close>

text \<open>
  A request to the content provider either resolves with a value after some latency
  (milliseconds, counted from the moment the request is issued), rejects after some
  latency, or never settles. \<^verbatim>\<open>withTimeout\<close> races it against a timer of \<open>ms\<close>
  milliseconds. The request is issued before the timer is set (it is the argument of the
  call), so a request that settles after exactly \<open>ms\<close> milliseconds still wins the race;
  after that the timer wins. The error of a rejection records whether its message contains
  \<^verbatim>\<open>Requested entity was not found\<close>, the one property the program inspects.
\<close>

datatype 'a request = Resolves nat 'a | Rejects nat bool | Hangs

datatype 'a settled = Resolved 'a | Rejected bool | TimedOut

fun withTimeout :: "'a request \<Rightarrow> nat \<Rightarrow> 'a settled" where
  "withTimeout (Resolves t v) ms = (if t \<le> ms then Resolved v else TimedOut)"
| "withTimeout (Rejects t e) ms = (if t \<le> ms then Rejected e else TimedOut)"
| "withTimeout Hangs ms = TimedOut"

section \<open>Content provider results (services/geminiService)\<close>

definition calculateTotalSegments :: "real \<Rightarrow> nat" where
  "calculateTotalSegments secs = nat (min (max 2 \<lceil>secs / 60\<rceil>) 4)"

text \<open>
  The Hindi string literals of the source are kept as named constants; their content
  plays no role in the program's control flow.
\<close>

definition defaultSegmentText :: string where
  "defaultSegmentText = ''(default chapter text)''"

definition fallbackOutlineHint :: string where
  "fallbackOutlineHint = ''(generic outline hint)''"

text \<open>
  \<^verbatim>\<open>generateSegment\<close> resolves with a segment that carries the requested index, the trimmed
  reply text (the default text when the reply is empty) and no audio. The argument is the
  trimmed reply text.
\<close>

definition generateSegment_result :: "nat \<Rightarrow> string \<Rightarrow> StorySegment" where
  "generateSegment_result segmentIndex reply =
     \<lparr>index = segmentIndex,
      segText = (if reply = [] then defaultSegmentText else reply),
      audioBuffer = None\<rparr>"

text \<open>
  \<^verbatim>\<open>generateStoryOutline\<close>: the provider call either throws or yields a reply text that
  \<^verbatim>\<open>JSON.parse\<close> turns into a value; a missing or empty text is parsed as \<^verbatim>\<open>"[]"\<close>. An
  array is cut to its first \<open>totalSegments\<close> entries by \<^verbatim>\<open>slice(0, totalSegments)\<close>; a
  parse error or a value without \<^verbatim>\<open>slice\<close> throws into the \<^verbatim>\<open>catch\<close> branch, which returns
  the filler hint \<open>totalSegments\<close> times. The entries of the array are taken to be strings,
  as the declared result type says; a reply that is a bare JSON string is left out.
\<close>

datatype outline_reply =
  CallThrows
| NoText
| Unparseable
| JsonArray "string list"
| JsonNotArray

fun generateStoryOutline :: "outline_reply \<Rightarrow> nat \<Rightarrow> string list" where
  "generateStoryOutline (JsonArray hints) totalSegments = take totalSegments hints"
| "generateStoryOutline NoText totalSegments = take totalSegments []"
| "generateStoryOutline CallThrows totalSegments = replicate totalSegments fallbackOutlineHint"
| "generateStoryOutline Unparseable totalSegments = replicate totalSegments fallbackOutlineHint"
| "generateStoryOutline JsonNotArray totalSegments = replicate totalSegments fallbackOutlineHint"

section \<open>The application state (App)\<close>

text \<open>
  A background generation attempt is one invocation of \<^verbatim>\<open>generateNextSegment\<close> that got
  past its guard. It waits for the chapter text and then for the chapter audio. The
  attempts that are in flight are kept in a list, so that the state can express several
  concurrent attempts; that there is never more than one is a property to be proved.
\<close>

datatype phase = AwaitingText | AwaitingAudio StorySegment

record attempt =
  attemptIndex :: nat
  attemptPhase :: phase

record App =
  appState :: AppState
  route :: "RouteDetails option"
  story :: "AudioStory option"
  generationError :: "string option"
  isKeyRequired :: bool
  isGeneratingRef :: bool
  isBackgroundGenerating :: bool
  currentPlayingIndex :: nat
  smoothProgress :: real
  inFlight :: "attempt list"

definition App_initial :: App where
  "App_initial =
     \<lparr>appState = PLANNING, route = None, story = None, generationError = None,
      isKeyRequired = False, isGeneratingRef = False, isBackgroundGenerating = False,
      currentPlayingIndex = 0, smoothProgress = 0, inFlight = []\<rparr>"

subsection \<open>The idempotent insert of a completed chapter\<close>

text \<open>
  The updater passed to \<^verbatim>\<open>setStory\<close> at the end of a successful attempt: the previous
  story is returned unchanged when there is none or when a segment with the requested
  index exists; otherwise the new segment is appended and the array is sorted by index
  (\<^verbatim>\<open>Array.prototype.sort\<close> is stable, as is \<open>sort_key\<close>).
\<close>

definition insertSegment :: "nat \<Rightarrow> StorySegment \<Rightarrow> AudioStory option \<Rightarrow> AudioStory option" where
  "insertSegment idx seg prev =
     (case prev of
        None \<Rightarrow> None
      | Some st \<Rightarrow>
          if list_ex (\<lambda>s. index s = idx) (segments st) then Some st
          else Some (st\<lparr>segments := sort_key index (segments st @ [seg])\<rparr>))"

subsection \<open>\<^verbatim>\<open>generateNextSegment\<close>\<close>

text \<open>
  The synchronous prefix of \<^verbatim>\<open>generateNextSegment\<close>: the guard, then the lock is taken and
  the text request is issued.
\<close>

definition generateNextSegment :: "nat \<Rightarrow> App \<Rightarrow> App" where
  "generateNextSegment idx s =
     (if route s = None \<or> story s = None \<or> isGeneratingRef s then s
      else s\<lparr>isGeneratingRef := True, isBackgroundGenerating := True,
             inFlight := inFlight s @ [\<lparr>attemptIndex = idx, attemptPhase = AwaitingText\<rparr>]\<rparr>)"

text \<open>The \<^verbatim>\<open>finally\<close> block of an attempt, which also ends it.\<close>

definition finallyRelease :: "nat \<Rightarrow> App \<Rightarrow> App" where
  "finallyRelease k s =
     s\<lparr>isGeneratingRef := False, isBackgroundGenerating := False,
       inFlight := take k (inFlight s) @ drop (Suc k) (inFlight s)\<rparr>"

text \<open>
  The text request of the attempt at position \<open>k\<close> settles (60 second timeout). On
  success the audio request is issued; otherwise control passes through \<^verbatim>\<open>catch\<close>
  (logging only) to \<^verbatim>\<open>finally\<close>.
\<close>

definition textSettles :: "nat \<Rightarrow> string request \<Rightarrow> App \<Rightarrow> App" where
  "textSettles k req s =
     (if k < length (inFlight s) \<and> attemptPhase (inFlight s ! k) = AwaitingText then
        (case withTimeout req 60000 of
           Resolved reply \<Rightarrow>
             s\<lparr>inFlight := (inFlight s)
                 [k := (inFlight s ! k)\<lparr>attemptPhase :=
                    AwaitingAudio (generateSegment_result (attemptIndex (inFlight s ! k)) reply)\<rparr>]\<rparr>
         | _ \<Rightarrow> finallyRelease k s)
      else s)"

text \<open>
  The audio request of the attempt at position \<open>k\<close> settles (100 second timeout). On
  success the chapter is inserted into the story; in every case \<^verbatim>\<open>finally\<close> runs.
\<close>

definition audioSettles :: "nat \<Rightarrow> AudioBuffer request \<Rightarrow> App \<Rightarrow> App" where
  "audioSettles k req s =
     (if k < length (inFlight s) then
        (case attemptPhase (inFlight s ! k) of
           AwaitingText \<Rightarrow> s
         | AwaitingAudio segmentData \<Rightarrow>
             (case withTimeout req 100000 of
                Resolved buf \<Rightarrow>
                  finallyRelease k
                    (s\<lparr>story := insertSegment (attemptIndex (inFlight s ! k))
                                  (segmentData\<lparr>audioBuffer := Some buf\<rparr>) (story s)\<rparr>)
              | _ \<Rightarrow> finallyRelease k s))
      else s)"

subsection \<open>The look-ahead scheduler (the effect on story, route, appState, currentPlayingIndex)\<close>

text \<open>
  \<open>scheduled\<close> is the decision of the effect: the index it passes to
  \<^verbatim>\<open>generateNextSegment\<close>, if it calls it.
\<close>

definition scheduled :: "App \<Rightarrow> nat option" where
  "scheduled s =
     (case story s of
        None \<Rightarrow> None
      | Some st \<Rightarrow>
          if route s = None \<or> AppState_value (appState s) < AppState_value READY_TO_PLAY then None
          else
            let totalGenerated = length (segments st);
                neededBufferIndex = currentPlayingIndex s + 2
            in if totalGenerated < neededBufferIndex \<and> totalGenerated < totalSegmentsEstimate st
                  \<and> \<not> isGeneratingRef s
               then Some (totalGenerated + 1) else None)"

definition schedulerEffect :: "App \<Rightarrow> App" where
  "schedulerEffect s = (case scheduled s of None \<Rightarrow> s | Some idx \<Rightarrow> generateNextSegment idx s)"

subsection \<open>Journey start and reset\<close>

text \<open>
  \<^verbatim>\<open>handleGenerateStory\<close> up to its first \<^verbatim>\<open>await\<close>, and its continuation once the outline,
  the first chapter's text and audio and the landmark images have settled. The landmark
  pipeline never rejects (its failures resolve to absent images).
\<close>

definition handleGenerateStory_begin :: "RouteDetails \<Rightarrow> App \<Rightarrow> App" where
  "handleGenerateStory_begin details s =
     s\<lparr>route := Some details, generationError := None,
       appState := GENERATING_INITIAL_SEGMENT\<rparr>"

definition startFailed :: "bool \<Rightarrow> App \<Rightarrow> App" where
  "startFailed entityNotFound s =
     (if entityNotFound
      then s\<lparr>appState := PLANNING, isKeyRequired := True,
             generationError := Some ''High-quality visuals require a paid API key.''\<rparr>
      else s\<lparr>appState := PLANNING,
             generationError := Some ''Failed to start story stream.''\<rparr>)"

fun errorOf :: "'a settled \<Rightarrow> bool" where
  "errorOf (Rejected e) = e"
| "errorOf _ = False"

text \<open>The story object that a successful journey start stores.\<close>

definition initialStory ::
  "RouteDetails \<Rightarrow> outline_reply \<Rightarrow> string \<Rightarrow> AudioBuffer \<Rightarrow> string list \<Rightarrow> AudioStory" where
  "initialStory details oreply reply seg1Audio images =
     (let total = calculateTotalSegments (durationSeconds details) in
      \<lparr>totalSegmentsEstimate = total,
       outline = generateStoryOutline oreply total,
       segments = [(generateSegment_result 1 reply)\<lparr>audioBuffer := Some seg1Audio\<rparr>],
       landmarkImages = images\<rparr>)"

definition handleGenerateStory_settle ::
  "RouteDetails \<Rightarrow> outline_reply request \<Rightarrow> string request \<Rightarrow> AudioBuffer request
     \<Rightarrow> string list \<Rightarrow> App \<Rightarrow> App" where
  "handleGenerateStory_settle details outlineReq textReq audioReq images s =
     (case withTimeout outlineReq 60000 of
        Resolved oreply \<Rightarrow>
          (case withTimeout textReq 60000 of
             Resolved reply \<Rightarrow>
               (case withTimeout audioReq 100000 of
                  Resolved seg1Audio \<Rightarrow>
                    s\<lparr>story := Some (initialStory details oreply reply seg1Audio images),
                      appState := READY_TO_PLAY\<rparr>
                | r \<Rightarrow> startFailed (errorOf r) s)
           | r \<Rightarrow> startFailed (errorOf r) s)
      | r \<Rightarrow> startFailed (errorOf r) s)"

definition handleReset :: "App \<Rightarrow> App" where
  "handleReset s =
     s\<lparr>appState := PLANNING, route := None, story := None, currentPlayingIndex := 0,
       smoothProgress := 0, generationError := None\<rparr>"

subsection \<open>Runs of the application\<close>

text \<open>
  The events that change the application state, in any order and at any time: the
  scheduler effect is evaluated, a request of an in-flight attempt settles, the player
  reports its chapter index or a progress value, a journey is started or reset.
\<close>

datatype event =
  Schedule
| TextSettles nat "string request"
| AudioSettles nat "AudioBuffer request"
| SegmentChange nat
| SmoothProgressUpdate real
| BeginJourney RouteDetails
| SettleJourney RouteDetails "outline_reply request" "string request" "AudioBuffer request" "string list"
| Reset

fun step :: "App \<Rightarrow> event \<Rightarrow> App" where
  "step s Schedule = schedulerEffect s"
| "step s (TextSettles k req) = textSettles k req s"
| "step s (AudioSettles k req) = audioSettles k req s"
| "step s (SegmentChange i) = s\<lparr>currentPlayingIndex := i\<rparr>"
| "step s (SmoothProgressUpdate v) = s\<lparr>smoothProgress := v\<rparr>"
| "step s (BeginJourney details) = handleGenerateStory_begin details s"
| "step s (SettleJourney details oreq treq areq images) =
     handleGenerateStory_settle details oreq treq areq images s"
| "step s Reset = handleReset s"

definition run :: "event list \<Rightarrow> App" where
  "run evs = foldl step App_initial evs"

section \<open>The playback engine (StoryPlayer)\<close>

text \<open>
  The component state (\<^verbatim>\<open>useState\<close>) and its refs (\<^verbatim>\<open>useRef\<close>). \<open>audioContextRef\<close> tells
  whether the audio context exists; \<open>sourceRef\<close> is the buffer source that is sounding, with
  the buffer it plays and the offset it was started at (\<^verbatim>\<open>source.start(0, offset)\<close>). The
  reading of the audio clock (\<^verbatim>\<open>audioContext.currentTime\<close>) is an argument \<open>now\<close> of every
  handler. The story is a prop: every handler takes the story of the render it was created
  in as an argument.
\<close>

record SourceNode =
  buffer :: AudioBuffer
  startOffset :: real

record Player =
  isPlaying :: bool
  currentSegmentIndex :: nat
  isBuffering :: bool
  autoScroll :: bool
  audioContextRef :: bool
  sourceRef :: "SourceNode option"
  startTimeRef :: real
  segmentOffsetRef :: real
  indexRef :: nat

definition Player_initial :: Player where
  "Player_initial =
     \<lparr>isPlaying = False, currentSegmentIndex = 0, isBuffering = False, autoScroll = True,
      audioContextRef = False, sourceRef = None, startTimeRef = 0, segmentOffsetRef = 0,
      indexRef = 0\<rparr>"

text \<open>\<^verbatim>\<open>story.segments[i]\<close>: \<^verbatim>\<open>undefined\<close> (here \<open>None\<close>) beyond the end of the array.\<close>

definition segmentAt :: "AudioStory \<Rightarrow> nat \<Rightarrow> StorySegment option" where
  "segmentAt st i = (if i < length (segments st) then Some (segments st ! i) else None)"

text \<open>\<^verbatim>\<open>segment?.audioBuffer\<close>: the buffer of a segment that exists and has audio.\<close>

definition audioOf :: "StorySegment option \<Rightarrow> AudioBuffer option" where
  "audioOf seg = (case seg of None \<Rightarrow> None | Some sg \<Rightarrow> audioBuffer sg)"

definition stopAudio :: "Player \<Rightarrow> Player" where
  "stopAudio p = p\<lparr>sourceRef := None\<rparr>"

text \<open>
  \<^verbatim>\<open>playSegment\<close>: without audio the engine starts buffering; otherwise the audio context is
  created if need be (and resumed, which is taken to complete at once), the previous source
  is stopped and a new source for the segment's buffer is started at the offset.
\<close>

definition playSegment :: "StorySegment option \<Rightarrow> real \<Rightarrow> real \<Rightarrow> Player \<Rightarrow> Player" where
  "playSegment seg offset now p =
     (case audioOf seg of
        None \<Rightarrow> p\<lparr>isBuffering := True\<rparr>
      | Some buf \<Rightarrow>
          (stopAudio (p\<lparr>audioContextRef := True\<rparr>))
            \<lparr>sourceRef := Some \<lparr>buffer = buf, startOffset = offset\<rparr>,
             startTimeRef := now - offset\<rparr>)"

text \<open>The effect that copies the chapter index into \<open>indexRef\<close> after a render.\<close>

definition indexRefEffect :: "Player \<Rightarrow> Player" where
  "indexRefEffect p = p\<lparr>indexRef := currentSegmentIndex p\<rparr>"

definition handleSegmentEnd :: "AudioStory \<Rightarrow> real \<Rightarrow> Player \<Rightarrow> Player" where
  "handleSegmentEnd st now p =
     (let currentIndex = indexRef p;
          nextIndex = currentIndex + 1
      in if nextIndex < totalSegmentsEstimate st \<or> segmentAt st nextIndex \<noteq> None then
           (let p1 = p\<lparr>currentSegmentIndex := nextIndex, segmentOffsetRef := 0\<rparr>
            in if audioOf (segmentAt st nextIndex) \<noteq> None
               then playSegment (segmentAt st nextIndex) 0 now p1
               else p1\<lparr>isBuffering := True\<rparr>)
         else p\<lparr>isPlaying := False\<rparr>)"

text \<open>
  The \<^verbatim>\<open>onended\<close> callback of the sounding source. \<^verbatim>\<open>stopAudio\<close> removes the callback, so it
  only runs for the source in \<open>sourceRef\<close>.
\<close>

definition onended :: "AudioStory \<Rightarrow> real \<Rightarrow> Player \<Rightarrow> Player" where
  "onended st now p =
     (case sourceRef p of
        None \<Rightarrow> p
      | Some src \<Rightarrow>
          if \<not> audioContextRef p then p
          else if now - startTimeRef p \<ge> duration (buffer src) - 0.5
               then handleSegmentEnd st now p else p)"

definition togglePlayback :: "AudioStory \<Rightarrow> real \<Rightarrow> Player \<Rightarrow> Player" where
  "togglePlayback st now p =
     (let currentSegment = segmentAt st (currentSegmentIndex p) in
      if isPlaying p then
        (let p1 = (if audioContextRef p \<and> \<not> isBuffering p
                   then p\<lparr>segmentOffsetRef := now - startTimeRef p\<rparr> else p)
         in (stopAudio p1)\<lparr>isPlaying := False, autoScroll := False\<rparr>)
      else
        (let p1 = p\<lparr>isPlaying := True\<rparr>
         in if audioOf currentSegment \<noteq> None
            then (playSegment currentSegment (segmentOffsetRef p1) now (p1\<lparr>isBuffering := False\<rparr>))
                   \<lparr>autoScroll := True\<rparr>
            else p1\<lparr>isBuffering := True\<rparr>))"

text \<open>The effect that ends buffering once the awaited chapter has audio.\<close>

definition bufferingEffect :: "AudioStory \<Rightarrow> real \<Rightarrow> Player \<Rightarrow> Player" where
  "bufferingEffect st now p =
     (let segmentNowReady = segmentAt st (currentSegmentIndex p) in
      if isBuffering p \<and> isPlaying p \<and> audioOf segmentNowReady \<noteq> None
      then playSegment segmentNowReady 0 now (p\<lparr>isBuffering := False\<rparr>)
      else p)"

text \<open>
  \<^verbatim>\<open>updateProgress\<close>, run on every animation frame: the value it passes to
  \<^verbatim>\<open>onSmoothProgressUpdate\<close>, if it calls it.
\<close>

definition updateProgress :: "AudioStory \<Rightarrow> real \<Rightarrow> Player \<Rightarrow> real option" where
  "updateProgress st now p =
     (case audioOf (segmentAt st (currentSegmentIndex p)) of
        None \<Rightarrow> None
      | Some buf \<Rightarrow>
          if isPlaying p \<and> \<not> isBuffering p \<and> audioContextRef p then
            (let elapsed = now - startTimeRef p;
                 segmentProgress = min 1 (elapsed / duration buf);
                 totalProgress =
                   (real (currentSegmentIndex p) + segmentProgress) / real (totalSegmentsEstimate st)
             in Some totalProgress)
          else None)"

text \<open>
  An animation frame seen from the application: \<^verbatim>\<open>onSmoothProgressUpdate\<close> is
  \<^verbatim>\<open>setSmoothProgress\<close>.
\<close>

definition animationFrame :: "AudioStory \<Rightarrow> real \<Rightarrow> Player \<Rightarrow> App \<Rightarrow> App" where
  "animationFrame st now p s =
     (case updateProgress st now p of
        None \<Rightarrow> s
      | Some v \<Rightarrow> step s (SmoothProgressUpdate v))"

text \<open>The progress value the map widget (InlineMap) works with.\<close>

definition InlineMap_progress :: "real \<Rightarrow> real" where
  "InlineMap_progress smooth = max 0 (min 1 smooth)"

text \<open>The cleanup that runs when the player is unmounted: the journey was reset.\<close>

definition unmount :: "Player \<Rightarrow> Player" where
  "unmount p = (stopAudio p)\<lparr>audioContextRef := False\<rparr>"

text \<open>
  The effects that run after the component has rendered with the story \<open>st\<close>, in the order
  of their declaration: \<open>indexRef\<close> is brought up to date, then buffering is resolved.
  (Running an effect whose dependencies did not change makes no difference: the first is
  idempotent and the second acts only under a condition on its own dependencies.)
\<close>

definition render :: "AudioStory \<Rightarrow> real \<Rightarrow> Player \<Rightarrow> Player" where
  "render st now p = bufferingEffect st now (indexRefEffect p)"

section \<open>Properties of states and runs\<close>

text \<open>
  The completion of a chapter generation for index \<open>idx\<close> as the story sees it: the segment
  that \<^verbatim>\<open>generateSegment\<close> returned for \<open>idx\<close>, with its audio attached, goes through the
  idempotent insert.
\<close>

definition completeChapter ::
  "nat \<Rightarrow> string \<Rightarrow> AudioBuffer \<Rightarrow> AudioStory option \<Rightarrow> AudioStory option" where
  "completeChapter idx reply buf prev =
     insertSegment idx ((generateSegment_result idx reply)\<lparr>audioBuffer := Some buf\<rparr>) prev"

fun arrive :: "AudioStory option \<Rightarrow> nat \<times> string \<times> AudioBuffer \<Rightarrow> AudioStory option" where
  "arrive prev (idx, reply, buf) = completeChapter idx reply buf prev"

text \<open>The chapters are in strictly ascending index order (hence without duplicates).\<close>

definition ascending :: "AudioStory \<Rightarrow> bool" where
  "ascending st = sorted_wrt (<) (map index (segments st))"

text \<open>The chapter at array position \<open>k\<close> has index \<open>k + 1\<close>.\<close>

definition contiguous :: "AudioStory \<Rightarrow> bool" where
  "contiguous st = (map index (segments st) = [1 ..< Suc (length (segments st))])"

text \<open>The lock is held exactly while an attempt is in flight, and there is at most one.\<close>

definition singleFlight :: "App \<Rightarrow> bool" where
  "singleFlight s = (length (inFlight s) \<le> 1 \<and> (isGeneratingRef s = (inFlight s \<noteq> [])))"

text \<open>The segment that an attempt carries while it waits for audio has the attempt's index.\<close>

fun carriesOwnIndex :: "attempt \<Rightarrow> bool" where
  "carriesOwnIndex a =
     (case attemptPhase a of AwaitingText \<Rightarrow> True | AwaitingAudio d \<Rightarrow> index d = attemptIndex a)"

text \<open>The invariant behind the ordering of the story.\<close>

definition storyAscending :: "App \<Rightarrow> bool" where
  "storyAscending s =
     (list_all carriesOwnIndex (inFlight s)
      \<and> (case story s of None \<Rightarrow> True | Some st \<Rightarrow> ascending st))"

text \<open>
  A journey start stores a story exactly when its three requests (outline, first chapter
  text, first chapter audio) resolve in time.
\<close>

fun resolvesWithin :: "'a request \<Rightarrow> nat \<Rightarrow> bool" where
  "resolvesWithin r ms = (case withTimeout r ms of Resolved v \<Rightarrow> True | _ \<Rightarrow> False)"

definition storesStory ::
  "outline_reply request \<Rightarrow> string request \<Rightarrow> AudioBuffer request \<Rightarrow> bool" where
  "storesStory oreq treq areq =
     (resolvesWithin oreq 60000 \<and> resolvesWithin treq 60000 \<and> resolvesWithin areq 100000)"

text \<open>
  A run in which a journey's story is only ever created while no background attempt is in
  flight: no attempt outlives the creation of the next story. A journey start that fails
  creates no story and is not restricted.
\<close>

fun startsFresh :: "App \<Rightarrow> event \<Rightarrow> bool" where
  "startsFresh s (SettleJourney d oreq treq areq imgs) =
     (if storesStory oreq treq areq then inFlight s = [] else True)"
| "startsFresh s e = True"

fun freshStarts :: "App \<Rightarrow> event list \<Rightarrow> bool" where
  "freshStarts s [] = True"
| "freshStarts s (e # evs) = (startsFresh s e \<and> freshStarts (step s e) evs)"

text \<open>
  The invariant behind contiguity: the stored chapters are \<open>1, \<dots>, n\<close> and an attempt in
  flight is for chapter \<open>n + 1\<close>.
\<close>

definition inOrder :: "App \<Rightarrow> bool" where
  "inOrder s =
     (case story s of
        None \<Rightarrow> True
      | Some st \<Rightarrow>
          contiguous st
          \<and> list_all (\<lambda>a. attemptIndex a = length (segments st) + 1) (inFlight s))"

text \<open>
  The events that can happen while one journey is being played: everything except a
  journey start and a reset.
\<close>

fun inJourney :: "event \<Rightarrow> bool" where
  "inJourney (BeginJourney d) = False"
| "inJourney (SettleJourney d oreq treq areq imgs) = False"
| "inJourney Reset = False"
| "inJourney e = True"

text \<open>
  The audio that the story holds for the chapter with index \<open>c\<close>, wherever in the array it
  is stored.
\<close>

definition chapterAudio :: "AudioStory \<Rightarrow> nat \<Rightarrow> AudioBuffer option" where
  "chapterAudio st c = audioOf (find (\<lambda>s. index s = c) (segments st))"

text \<open>
  The state in which a journey start is running: \<^verbatim>\<open>handleGenerateStory\<close> enters it before
  its first request and leaves it when its requests (the outline, then the first chapter's
  text and audio) have settled.
\<close>

definition journeyStarting :: "App \<Rightarrow> bool" where
  "journeyStarting s = (appState s = GENERATING_INITIAL_SEGMENT)"

text \<open>The stored chapters and the attempts in flight together stay within the estimate.\<close>

definition withinEstimate :: "App \<Rightarrow> bool" where
  "withinEstimate s =
     (case story s of
        None \<Rightarrow> True
      | Some st \<Rightarrow> length (segments st) + length (inFlight s) \<le> totalSegmentsEstimate st)"

subsection \<open>Example journeys\<close>

definition routeA :: RouteDetails where
  "routeA = \<lparr>startAddress = ''Varanasi'', endAddress = ''Sarnath'', distance = ''10 km'',
     durationText = ''25 mins'', durationSeconds = 1500, travelMode = ''DRIVING'',
     voiceName = ''Kore'', storyStyle = GUIDE, withFamily = False, kidsCount = 0\<rparr>"

definition routeB :: RouteDetails where
  "routeB = \<lparr>startAddress = ''Assi Ghat'', endAddress = ''Dashashwamedh Ghat'',
     distance = ''2 km'', durationText = ''2 mins'', durationSeconds = 90,
     travelMode = ''WALKING'', voiceName = ''Puck'', storyStyle = HISTORICAL,
     withFamily = True, kidsCount = 2\<rparr>"

text \<open>Journey A is estimated at four chapters, journey B at two.\<close>

definition journeyA :: "event list" where
  "journeyA =
     [BeginJourney routeA,
      SettleJourney routeA (Resolves 900 (JsonArray [''a1'', ''a2'', ''a3'', ''a4'']))
        (Resolves 2000 ''A one'') (Resolves 3000 \<lparr>duration = 20\<rparr>) []]"

definition journeyB :: "event list" where
  "journeyB =
     [BeginJourney routeB,
      SettleJourney routeB (Resolves 900 (JsonArray [''b1'', ''b2'']))
        (Resolves 2000 ''B one'') (Resolves 3000 \<lparr>duration = 18\<rparr>) []]"

text \<open>
  Journey A plays into its second chapter and requests the third; the journey is reset
  and journey B starts while that request is pending; then the request completes.
\<close>

definition staleRun :: "event list" where
  "staleRun =
     journeyA @
     [Schedule, TextSettles 0 (Resolves 4000 ''A two''),
      AudioSettles 0 (Resolves 5000 \<lparr>duration = 21\<rparr>),
      SegmentChange 1, Schedule, Reset] @
     journeyB @
     [TextSettles 0 (Resolves 4000 ''A three''),
      AudioSettles 0 (Resolves 5000 \<lparr>duration = 22\<rparr>)]"

definition staleStory :: AudioStory where
  "staleStory =
     \<lparr>totalSegmentsEstimate = 2, outline = [''b1'', ''b2''],
      segments =
        [\<lparr>index = 1, segText = ''B one'', audioBuffer = Some \<lparr>duration = 18\<rparr>\<rparr>,
         \<lparr>index = 3, segText = ''A three'', audioBuffer = Some \<lparr>duration = 22\<rparr>\<rparr>],
      landmarkImages = []\<rparr>"

text \<open>A player in the middle of the first chapter, started when the audio clock read 5.\<close>

definition playingFirst :: Player where
  "playingFirst =
     \<lparr>isPlaying = True, currentSegmentIndex = 0, isBuffering = False, autoScroll = True,
      audioContextRef = True, sourceRef = Some \<lparr>buffer = \<lparr>duration = 20\<rparr>, startOffset = 0\<rparr>,
      startTimeRef = 5, segmentOffsetRef = 0, indexRef = 0\<rparr>"

definition storyOne :: AudioStory where
  "storyOne =
     \<lparr>totalSegmentsEstimate = 4, outline = [''a1'', ''a2'', ''a3'', ''a4''],
      segments = [\<lparr>index = 1, segText = ''A one'', audioBuffer = Some \<lparr>duration = 20\<rparr>\<rparr>],
      landmarkImages = []\<rparr>"

definition storyTwo :: AudioStory where
  "storyTwo =
     storyOne\<lparr>segments :=
       [\<lparr>index = 1, segText = ''A one'', audioBuffer = Some \<lparr>duration = 20\<rparr>\<rparr>,
        \<lparr>index = 2, segText = ''A two'', audioBuffer = Some \<lparr>duration = 21\<rparr>\<rparr>]\<rparr>"

definition storyThree :: AudioStory where
  "storyThree =
     storyOne\<lparr>segments :=
       [\<lparr>index = 1, segText = ''A one'', audioBuffer = Some \<lparr>duration = 20\<rparr>\<rparr>,
        \<lparr>index = 2, segText = ''A two'', audioBuffer = Some \<lparr>duration = 21\<rparr>\<rparr>,
        \<lparr>index = 3, segText = ''A three'', audioBuffer = Some \<lparr>duration = 22\<rparr>\<rparr>]\<rparr>"

text \<open>
  A player that was started on the two-chapter story when the clock read 5, played the first
  chapter to its end at 25 and went on to the second.
\<close>

definition playingSecond :: Player where
  "playingSecond =
     render storyTwo 25 (onended storyTwo 25
       (render storyTwo 5 (togglePlayback storyTwo 5 Player_initial)))"

text \<open>
  Journey A requests its third chapter and is reset; journey B is started while that
  request is pending.
\<close>

definition overlapRun :: "event list" where
  "overlapRun =
     journeyA @
     [Schedule, TextSettles 0 (Resolves 4000 ''A two''),
      AudioSettles 0 (Resolves 5000 \<lparr>duration = 21\<rparr>),
      SegmentChange 1, Schedule, Reset, BeginJourney routeB]"

text \<open>
  Journey A requests its second chapter and is reset; a first start of journey B fails
  (its outline request hangs) while that request is pending; the request completes and is
  dropped; then journey B starts and generates its second chapter.
\<close>

definition retryRun :: "event list" where
  "retryRun =
     journeyA @
     [Schedule, Reset, BeginJourney routeB,
      SettleJourney routeB Hangs (Resolves 2000 ''B one'') (Resolves 3000 \<lparr>duration = 18\<rparr>) [],
      TextSettles 0 (Resolves 4000 ''A two''),
      AudioSettles 0 (Resolves 5000 \<lparr>duration = 21\<rparr>)] @
     journeyB @
     [Schedule, TextSettles 0 (Resolves 4000 ''B two''),
      AudioSettles 0 (Resolves 5000 \<lparr>duration = 19\<rparr>)]"

definition retryStory :: AudioStory where
  "retryStory =
     \<lparr>totalSegmentsEstimate = 2, outline = [''b1'', ''b2''],
      segments =
        [\<lparr>index = 1, segText = ''B one'', audioBuffer = Some \<lparr>duration = 18\<rparr>\<rparr>,
         \<lparr>index = 2, segText = ''B two'', audioBuffer = Some \<lparr>duration = 19\<rparr>\<rparr>],
      landmarkImages = []\<rparr>"

text \<open>
  Journey A stores three chapters and requests the fourth; it is reset and journey C
  (estimated at three chapters) starts while that request is pending; the request
  completes into journey C's story. Then playback moves to array position 1, the scheduler
  requests chapter 3, and its completion is sorted in front of chapter 4.
\<close>

definition routeC :: RouteDetails where
  "routeC = \<lparr>startAddress = ''Sarnath'', endAddress = ''Ramnagar Fort'', distance = ''14 km'',
     durationText = ''3 mins'', durationSeconds = 150, travelMode = ''DRIVING'',
     voiceName = ''Kore'', storyStyle = MYTHOLOGY, withFamily = False, kidsCount = 0\<rparr>"

definition journeyC :: "event list" where
  "journeyC =
     [BeginJourney routeC,
      SettleJourney routeC (Resolves 900 (JsonArray [''c1'', ''c2'', ''c3'']))
        (Resolves 2000 ''C one'') (Resolves 3000 \<lparr>duration = 18\<rparr>) []]"

definition gapRun :: "event list" where
  "gapRun =
     journeyA @
     [Schedule, TextSettles 0 (Resolves 4000 ''A two''),
      AudioSettles 0 (Resolves 5000 \<lparr>duration = 21\<rparr>),
      SegmentChange 1, Schedule, TextSettles 0 (Resolves 4000 ''A three''),
      AudioSettles 0 (Resolves 5000 \<lparr>duration = 22\<rparr>),
      SegmentChange 2, Schedule, Reset] @
     journeyC @
     [TextSettles 0 (Resolves 4000 ''A four''),
      AudioSettles 0 (Resolves 5000 \<lparr>duration = 24\<rparr>)]"

definition gapStory :: AudioStory where
  "gapStory =
     \<lparr>totalSegmentsEstimate = 3, outline = [''c1'', ''c2'', ''c3''],
      segments =
        [\<lparr>index = 1, segText = ''C one'', audioBuffer = Some \<lparr>duration = 18\<rparr>\<rparr>,
         \<lparr>index = 4, segText = ''A four'', audioBuffer = Some \<lparr>duration = 24\<rparr>\<rparr>],
      landmarkImages = []\<rparr>"

definition filledRun :: "event list" where
  "filledRun =
     gapRun @
     [SegmentChange 1, Schedule, TextSettles 0 (Resolves 4000 ''C three''),
      AudioSettles 0 (Resolves 5000 \<lparr>duration = 33\<rparr>)]"

definition filledStory :: AudioStory where
  "filledStory =
     gapStory\<lparr>segments :=
       [\<lparr>index = 1, segText = ''C one'', audioBuffer = Some \<lparr>duration = 18\<rparr>\<rparr>,
        \<lparr>index = 3, segText = ''C three'', audioBuffer = Some \<lparr>duration = 33\<rparr>\<rparr>,
        \<lparr>index = 4, segText = ''A four'', audioBuffer = Some \<lparr>duration = 24\<rparr>\<rparr>]\<rparr>"

text \<open>
  A player started on \<open>gapStory\<close> when the clock read 0 that played the first chapter to its
  end at 18 and went on to array position 1.
\<close>

definition playingGap :: Player where
  "playingGap =
     render gapStory 18 (onended gapStory 18
       (render gapStory 0 (togglePlayback gapStory 0 Player_initial)))"

section \<open>Auxiliary facts\<close>

lemmas app_defs =
  run_def App_initial_def schedulerEffect_def scheduled_def generateNextSegment_def
  textSettles_def audioSettles_def finallyRelease_def insertSegment_def handleReset_def
  handleGenerateStory_begin_def handleGenerateStory_settle_def initialStory_def
  startFailed_def generateSegment_result_def calculateTotalSegments_def

lemmas player_defs =
  segmentAt_def audioOf_def stopAudio_def playSegment_def handleSegmentEnd_def onended_def
  togglePlayback_def bufferingEffect_def updateProgress_def animationFrame_def
  InlineMap_progress_def unmount_def indexRefEffect_def render_def Player_initial_def

lemmas example_defs =
  routeA_def routeB_def journeyA_def journeyB_def staleRun_def staleStory_def
  playingFirst_def storyOne_def storyTwo_def storyThree_def playingSecond_def overlapRun_def
  retryRun_def retryStory_def routeC_def journeyC_def gapRun_def gapStory_def filledRun_def
  filledStory_def playingGap_def

subsection \<open>Single flight\<close>

lemma singleFlight_generateNextSegment:
  "singleFlight s \<Longrightarrow> singleFlight (generateNextSegment idx s)"
  by (auto simp: singleFlight_def generateNextSegment_def)

lemma singleFlight_finallyRelease:
  "singleFlight s \<Longrightarrow> k < length (inFlight s) \<Longrightarrow> singleFlight (finallyRelease k s)"
  by (auto simp: singleFlight_def finallyRelease_def)

lemma singleFlight_textSettles:
  "singleFlight s \<Longrightarrow> singleFlight (textSettles k req s)"
  by (auto simp: textSettles_def singleFlight_finallyRelease split: settled.splits)
     (auto simp: singleFlight_def)

lemma singleFlight_audioSettles:
  assumes "singleFlight s"
  shows "singleFlight (audioSettles k req s)"
proof -
  have "\<And>x. singleFlight (s\<lparr>story := x\<rparr>)"
    using assms by (simp add: singleFlight_def)
  then show ?thesis
    using assms singleFlight_finallyRelease[of "s\<lparr>story := x\<rparr>" k for x]
    by (auto simp: audioSettles_def singleFlight_finallyRelease
             split: settled.splits phase.splits)
qed

lemma singleFlight_step:
  assumes "singleFlight s"
  shows "singleFlight (step s e)"
proof (cases e)
  case Schedule
  then show ?thesis
    using assms
    by (auto simp: schedulerEffect_def singleFlight_generateNextSegment split: option.splits)
next
  case (TextSettles k req)
  then show ?thesis using assms by (simp add: singleFlight_textSettles)
next
  case (AudioSettles k req)
  then show ?thesis using assms by (simp add: singleFlight_audioSettles)
next
  case (SettleJourney d oreq treq areq imgs)
  then show ?thesis
    using assms
    by (auto simp: handleGenerateStory_settle_def startFailed_def singleFlight_def
             split: settled.splits)
qed (use assms in \<open>auto simp: singleFlight_def handleReset_def handleGenerateStory_begin_def\<close>)

lemma singleFlight_foldl: "singleFlight s \<Longrightarrow> singleFlight (foldl step s evs)"
  by (induction evs arbitrary: s) (auto simp: singleFlight_step)

lemma singleFlight_run: "singleFlight (run evs)"
  unfolding run_def by (rule singleFlight_foldl) (simp add: singleFlight_def App_initial_def)

lemma generateNextSegment_locked: "isGeneratingRef s \<Longrightarrow> generateNextSegment idx s = s"
  by (simp add: generateNextSegment_def)

lemma textSettles_failure:
  assumes "k < length (inFlight s)" "attemptPhase (inFlight s ! k) = AwaitingText"
    and "\<forall>v. withTimeout req 60000 \<noteq> Resolved v"
  shows "textSettles k req s = finallyRelease k s"
  using assms by (cases "withTimeout req 60000") (simp_all add: textSettles_def)

lemma audioSettles_failure:
  assumes "k < length (inFlight s)" "attemptPhase (inFlight s ! k) = AwaitingAudio d"
    and "\<forall>v. withTimeout req 100000 \<noteq> Resolved v"
  shows "audioSettles k req s = finallyRelease k s"
  using assms by (cases "withTimeout req 100000") (simp_all add: audioSettles_def)

lemma audioSettles_released:
  assumes "k < length (inFlight s)" "attemptPhase (inFlight s ! k) = AwaitingAudio d"
  shows "\<not> isGeneratingRef (audioSettles k req s)"
    and "inFlight (audioSettles k req s) = take k (inFlight s) @ drop (Suc k) (inFlight s)"
  using assms
  by (cases "withTimeout req 100000"; simp add: audioSettles_def finallyRelease_def)+

subsection \<open>Sorting by index\<close>

lemma map_insort_key: "map f (insort_key f x xs) = insort (f x) (map f xs)"
  by (induction xs) simp_all

lemma map_sort_key: "map f (sort_key f xs) = sort (map f xs)"
  by (induction xs) (simp_all add: map_insort_key)

lemma ascending_insert:
  assumes "sorted_wrt (<) (map index xs)" and "\<not> list_ex (\<lambda>s. index s = index seg) xs"
  shows "sorted_wrt (<) (map index (sort_key index (xs @ [seg])))"
proof -
  have "distinct (map index (xs @ [seg]))"
    using assms by (auto simp: strict_sorted_iff list_ex_iff)
  then have "distinct (sort (map index (xs @ [seg])))" by simp
  then show ?thesis
    unfolding map_sort_key strict_sorted_iff by simp
qed

lemma ascending_insertSegment:
  assumes "ascending st" "index seg = idx" "insertSegment idx seg (Some st) = Some st'"
  shows "ascending st'"
  using assms
  by (auto simp: insertSegment_def ascending_def ascending_insert split: if_splits)

lemma insertSegment_Some: "\<exists>st'. insertSegment idx seg (Some st) = Some st'"
  by (simp add: insertSegment_def)

subsection \<open>The story stays in ascending order\<close>

lemma list_all_take_drop:
  "list_all P xs \<Longrightarrow> list_all P (take k xs) \<and> list_all P (drop k xs)"
  by (auto simp: list_all_iff dest: in_set_takeD in_set_dropD)

lemma list_all_update: "list_all P xs \<Longrightarrow> P y \<Longrightarrow> list_all P (xs[k := y])"
  by (auto simp: list_all_iff dest: set_update_subset_insert[THEN subsetD])

lemma storyAscending_generateNextSegment:
  "storyAscending s \<Longrightarrow> storyAscending (generateNextSegment idx s)"
  by (auto simp: storyAscending_def generateNextSegment_def)

lemma storyAscending_finallyRelease:
  "storyAscending s \<Longrightarrow> storyAscending (finallyRelease k s)"
  by (simp add: storyAscending_def finallyRelease_def list_all_take_drop)

lemma storyAscending_textSettles:
  assumes "storyAscending s"
  shows "storyAscending (textSettles k req s)"
proof (cases "k < length (inFlight s) \<and> attemptPhase (inFlight s ! k) = AwaitingText")
  case False
  then show ?thesis using assms by (auto simp: textSettles_def)
next
  case True
  show ?thesis
  proof (cases "withTimeout req 60000")
    case (Resolved reply)
    have "list_all carriesOwnIndex
            ((inFlight s)[k := (inFlight s ! k)\<lparr>attemptPhase :=
               AwaitingAudio (generateSegment_result (attemptIndex (inFlight s ! k)) reply)\<rparr>])"
      using assms
      by (intro list_all_update) (simp_all add: storyAscending_def generateSegment_result_def)
    then show ?thesis
      using True Resolved assms by (simp add: textSettles_def storyAscending_def)
  qed (use True assms in \<open>simp_all add: textSettles_def storyAscending_finallyRelease\<close>)
qed

lemma storyAscending_audioSettles:
  assumes "storyAscending s"
  shows "storyAscending (audioSettles k req s)"
proof (cases "k < length (inFlight s)")
  case False
  then show ?thesis using assms by (simp add: audioSettles_def)
next
  case True
  show ?thesis
  proof (cases "attemptPhase (inFlight s ! k)")
    case AwaitingText
    then show ?thesis using True assms by (simp add: audioSettles_def)
  next
    case (AwaitingAudio d)
    have own: "index d = attemptIndex (inFlight s ! k)"
      using assms True AwaitingAudio
      by (auto simp: storyAscending_def list_all_length)
    show ?thesis
    proof (cases "withTimeout req 100000")
      case (Resolved buf)
      let ?s' = "s\<lparr>story := insertSegment (attemptIndex (inFlight s ! k))
                                (d\<lparr>audioBuffer := Some buf\<rparr>) (story s)\<rparr>"
      have "storyAscending ?s'"
      proof (cases "story s")
        case None
        then show ?thesis using assms by (simp add: storyAscending_def insertSegment_def)
      next
        case (Some st)
        obtain st' where st': "insertSegment (attemptIndex (inFlight s ! k))
                                (d\<lparr>audioBuffer := Some buf\<rparr>) (Some st) = Some st'"
          using insertSegment_Some by blast
        have "ascending st" using assms Some by (simp add: storyAscending_def)
        then have "ascending st'"
          using ascending_insertSegment[OF _ _ st'] own by simp
        then show ?thesis using assms Some st' by (simp add: storyAscending_def)
      qed
      then have "storyAscending (finallyRelease k ?s')"
        by (rule storyAscending_finallyRelease)
      then show ?thesis using True AwaitingAudio Resolved by (simp add: audioSettles_def)
    qed (use True AwaitingAudio assms in
          \<open>simp_all add: audioSettles_def storyAscending_finallyRelease\<close>)
  qed
qed

lemma ascending_initialStory: "ascending (initialStory d oreply reply buf imgs)"
  by (simp add: ascending_def initialStory_def Let_def)

lemma storyAscending_step:
  assumes "storyAscending s"
  shows "storyAscending (step s e)"
proof (cases e)
  case Schedule
  then show ?thesis
    using assms
    by (auto simp: schedulerEffect_def storyAscending_generateNextSegment split: option.splits)
next
  case (TextSettles k req)
  then show ?thesis using assms by (simp add: storyAscending_textSettles)
next
  case (AudioSettles k req)
  then show ?thesis using assms by (simp add: storyAscending_audioSettles)
next
  case (SettleJourney d oreq treq areq imgs)
  then show ?thesis
    using assms
    by (auto simp: handleGenerateStory_settle_def startFailed_def storyAscending_def
                   ascending_initialStory
             split: settled.splits)
qed (use assms in \<open>auto simp: storyAscending_def handleReset_def handleGenerateStory_begin_def\<close>)

lemma storyAscending_foldl: "storyAscending s \<Longrightarrow> storyAscending (foldl step s evs)"
  by (induction evs arbitrary: s) (auto simp: storyAscending_step)

lemma storyAscending_run: "storyAscending (run evs)"
  unfolding run_def by (rule storyAscending_foldl) (simp add: storyAscending_def App_initial_def)

section \<open>The generation scheduler\<close>

text \<open>
  C1. At every instant at most one background chapter generation (an attempt of
  \<^verbatim>\<open>generateNextSegment\<close>: text, then audio) is in flight, and the generation lock is held
  exactly while one is: this holds in every state that any sequence of events reaches.
  An attempt started while the lock is held returns at once and leaves the state as it
  is. The lock is released when an attempt ends: when its text request fails or times
  out, and when its audio request settles, whether it succeeds or fails. The journey
  start, which generates the first chapter, is not such an attempt: it neither reads nor
  changes the lock, and it leaves the attempts in flight as they are.
\<close>

theorem generation_single_flight:
  "length (inFlight (run evs)) \<le> 1
   \<and> (isGeneratingRef (run evs) \<longleftrightarrow> inFlight (run evs) \<noteq> [])
   \<and> (isGeneratingRef s \<longrightarrow> generateNextSegment idx s = s)
   \<and> (k < length (inFlight s1) \<and> attemptPhase (inFlight s1 ! k) = AwaitingText
        \<and> (\<forall>v. withTimeout treq 60000 \<noteq> Resolved v)
      \<longrightarrow> \<not> isGeneratingRef (textSettles k treq s1)
          \<and> inFlight (textSettles k treq s1) = take k (inFlight s1) @ drop (Suc k) (inFlight s1))
   \<and> (j < length (inFlight s2) \<and> attemptPhase (inFlight s2 ! j) = AwaitingAudio d
      \<longrightarrow> \<not> isGeneratingRef (audioSettles j areq s2)
          \<and> inFlight (audioSettles j areq s2) = take j (inFlight s2) @ drop (Suc j) (inFlight s2))
   \<and> isGeneratingRef (handleGenerateStory_begin details s3) = isGeneratingRef s3
   \<and> inFlight (handleGenerateStory_begin details s3) = inFlight s3
   \<and> isGeneratingRef (handleGenerateStory_settle details oreq treq1 areq1 imgs s3)
       = isGeneratingRef s3
   \<and> inFlight (handleGenerateStory_settle details oreq treq1 areq1 imgs s3) = inFlight s3
   \<and> handleGenerateStory_begin details (s3\<lparr>isGeneratingRef := b\<rparr>)
       = (handleGenerateStory_begin details s3)\<lparr>isGeneratingRef := b\<rparr>
   \<and> handleGenerateStory_settle details oreq treq1 areq1 imgs (s3\<lparr>isGeneratingRef := b\<rparr>)
       = (handleGenerateStory_settle details oreq treq1 areq1 imgs s3)\<lparr>isGeneratingRef := b\<rparr>"
proof -
  have "singleFlight (run evs)" by (rule singleFlight_run)
  then have a: "length (inFlight (run evs)) \<le> 1"
    and b: "isGeneratingRef (run evs) \<longleftrightarrow> inFlight (run evs) \<noteq> []"
    by (simp_all add: singleFlight_def)
  have c: "isGeneratingRef s \<longrightarrow> generateNextSegment idx s = s"
    by (simp add: generateNextSegment_locked)
  have d: "k < length (inFlight s1) \<and> attemptPhase (inFlight s1 ! k) = AwaitingText
        \<and> (\<forall>v. withTimeout treq 60000 \<noteq> Resolved v)
      \<longrightarrow> \<not> isGeneratingRef (textSettles k treq s1)
          \<and> inFlight (textSettles k treq s1) = take k (inFlight s1) @ drop (Suc k) (inFlight s1)"
    by (auto simp: textSettles_failure finallyRelease_def)
  have e: "j < length (inFlight s2) \<and> attemptPhase (inFlight s2 ! j) = AwaitingAudio d
      \<longrightarrow> \<not> isGeneratingRef (audioSettles j areq s2)
          \<and> inFlight (audioSettles j areq s2) = take j (inFlight s2) @ drop (Suc j) (inFlight s2)"
    by (auto simp: audioSettles_released)
  have f: "isGeneratingRef (handleGenerateStory_begin details s3) = isGeneratingRef s3
   \<and> inFlight (handleGenerateStory_begin details s3) = inFlight s3"
    by (simp add: handleGenerateStory_begin_def)
  have g: "isGeneratingRef (handleGenerateStory_settle details oreq treq1 areq1 imgs s3)
       = isGeneratingRef s3
   \<and> inFlight (handleGenerateStory_settle details oreq treq1 areq1 imgs s3) = inFlight s3"
    by (simp add: handleGenerateStory_settle_def startFailed_def split: settled.splits)
  have h: "handleGenerateStory_begin details (s3\<lparr>isGeneratingRef := b\<rparr>)
       = (handleGenerateStory_begin details s3)\<lparr>isGeneratingRef := b\<rparr>"
    by (simp add: handleGenerateStory_begin_def)
  have i: "handleGenerateStory_settle details oreq treq1 areq1 imgs (s3\<lparr>isGeneratingRef := b\<rparr>)
       = (handleGenerateStory_settle details oreq treq1 areq1 imgs s3)\<lparr>isGeneratingRef := b\<rparr>"
    by (simp add: handleGenerateStory_settle_def startFailed_def split: settled.splits)
  from a b c d e f g h i show ?thesis by blast
qed

theorem generation_single_flight_witness:
  "isGeneratingRef (run (journeyA @ [Schedule]))
   \<and> inFlight (run (journeyA @ [Schedule])) = [\<lparr>attemptIndex = 2, attemptPhase = AwaitingText\<rparr>]
   \<and> generateNextSegment 3 (run (journeyA @ [Schedule])) = run (journeyA @ [Schedule])
   \<and> \<not> isGeneratingRef (textSettles 0 Hangs (run (journeyA @ [Schedule])))
   \<and> inFlight (textSettles 0 Hangs (run (journeyA @ [Schedule]))) = []
   \<and> \<not> isGeneratingRef (audioSettles 0 (Resolves 5000 \<lparr>duration = 21\<rparr>)
          (run (journeyA @ [Schedule, TextSettles 0 (Resolves 4000 ''A two'')])))
   \<and> inFlight (audioSettles 0 (Resolves 5000 \<lparr>duration = 21\<rparr>)
          (run (journeyA @ [Schedule, TextSettles 0 (Resolves 4000 ''A two'')]))) = []
   \<and> isGeneratingRef (handleGenerateStory_begin routeB (run (journeyA @ [Schedule, Reset])))
   \<and> inFlight (handleGenerateStory_begin routeB (run (journeyA @ [Schedule, Reset])))
       = [\<lparr>attemptIndex = 2, attemptPhase = AwaitingText\<rparr>]"
  using generation_single_flight
    [where evs = "journeyA @ [Schedule]" and s = "run (journeyA @ [Schedule])" and idx = 3
       and k = 0 and ?s1.0 = "run (journeyA @ [Schedule])" and treq = Hangs and j = 0
       and ?s2.0 = "run (journeyA @ [Schedule, TextSettles 0 (Resolves 4000 ''A two'')])"
       and d = "\<lparr>index = 2, segText = ''A two'', audioBuffer = None\<rparr>"
       and areq = "Resolves 5000 \<lparr>duration = 21\<rparr>"
       and details = routeB and ?s3.0 = "run (journeyA @ [Schedule, Reset])"
       and oreq = Hangs and ?treq1.0 = Hangs and ?areq1.0 = Hangs and imgs = "[]" and b = False]
  by (simp add: app_defs example_defs)

text \<open>
  Counting the first chapter too, two chapter generations can be in flight at once:
  journey A requests its third chapter and is reset; while that request is pending journey
  B is started, and its first chapter is generated (text, then audio) and stored while
  the attempt for chapter 3 is still in flight.
\<close>

theorem generation_single_flight_counterexample:
  "journeyStarting (run overlapRun)
   \<and> inFlight (run overlapRun) = [\<lparr>attemptIndex = 3, attemptPhase = AwaitingText\<rparr>]
   \<and> story (run (overlapRun @
        [SettleJourney routeB (Resolves 900 (JsonArray [''b1'', ''b2'']))
           (Resolves 2000 ''B one'') (Resolves 3000 \<lparr>duration = 18\<rparr>) []]))
       = Some \<lparr>totalSegmentsEstimate = 2, outline = [''b1'', ''b2''],
               segments = [\<lparr>index = 1, segText = ''B one'',
                             audioBuffer = Some \<lparr>duration = 18\<rparr>\<rparr>],
               landmarkImages = []\<rparr>
   \<and> inFlight (run (overlapRun @
        [SettleJourney routeB (Resolves 900 (JsonArray [''b1'', ''b2'']))
           (Resolves 2000 ''B one'') (Resolves 3000 \<lparr>duration = 18\<rparr>) []]))
       = [\<lparr>attemptIndex = 3, attemptPhase = AwaitingText\<rparr>]"
  by (simp add: app_defs example_defs journeyStarting_def)


subsection \<open>The trigger condition\<close>

lemma scheduled_eq:
  assumes "story s = Some st" "route s \<noteq> None"
    and "AppState_value READY_TO_PLAY \<le> AppState_value (appState s)"
  shows "scheduled s =
           (if length (segments st) < currentPlayingIndex s + 2
               \<and> length (segments st) < totalSegmentsEstimate st \<and> \<not> isGeneratingRef s
            then Some (length (segments st) + 1) else None)"
  using assms by (simp add: scheduled_def Let_def)

lemma scheduled_SomeD:
  "scheduled s = Some i \<Longrightarrow> route s \<noteq> None \<and> story s \<noteq> None \<and> \<not> isGeneratingRef s"
  by (auto simp: scheduled_def Let_def split: option.splits if_splits)

lemma schedulerEffect_Some:
  assumes "scheduled s = Some i"
  shows "schedulerEffect s =
           s\<lparr>isGeneratingRef := True, isBackgroundGenerating := True,
             inFlight := inFlight s @ [\<lparr>attemptIndex = i, attemptPhase = AwaitingText\<rparr>]\<rparr>"
  using assms scheduled_SomeD[OF assms]
  by (auto simp: schedulerEffect_def generateNextSegment_def)

text \<open>
  C2. When the scheduler effect is evaluated on a playable journey (a story and a route
  exist and the application has reached \<^verbatim>\<open>READY_TO_PLAY\<close>), with \<open>buffered\<close> the number of
  stored chapters and \<open>needed = currentPlayingIndex + 2\<close>, it schedules generation of chapter
  \<open>buffered + 1\<close> exactly when \<open>buffered < needed\<close>, \<open>buffered < totalSegmentsEstimate\<close> and the
  lock is free; a scheduled generation takes the lock and issues the attempt, and nothing
  happens otherwise. In particular, with an estimate of 2, the single chapter 1 stored and
  playback at index 0, chapter 2 is scheduled; once two chapters are stored nothing is
  scheduled for this estimate.
\<close>

theorem scheduler_trigger:
  "(story s = Some st \<and> route s \<noteq> None
      \<and> AppState_value READY_TO_PLAY \<le> AppState_value (appState s)
    \<longrightarrow> scheduled s =
          (if length (segments st) < currentPlayingIndex s + 2
              \<and> length (segments st) < totalSegmentsEstimate st \<and> \<not> isGeneratingRef s
           then Some (length (segments st) + 1) else None))
   \<and> (scheduled s = Some i
    \<longrightarrow> schedulerEffect s =
          s\<lparr>isGeneratingRef := True, isBackgroundGenerating := True,
            inFlight := inFlight s @ [\<lparr>attemptIndex = i, attemptPhase = AwaitingText\<rparr>]\<rparr>)
   \<and> (scheduled s = None \<longrightarrow> schedulerEffect s = s)
   \<and> (story s = Some st \<and> route s \<noteq> None
      \<and> AppState_value READY_TO_PLAY \<le> AppState_value (appState s)
      \<and> totalSegmentsEstimate st = 2 \<and> map index (segments st) = [1]
      \<and> currentPlayingIndex s = 0 \<and> \<not> isGeneratingRef s
    \<longrightarrow> scheduled s = Some 2)
   \<and> (story s = Some st \<and> totalSegmentsEstimate st = 2 \<and> length (segments st) = 2
    \<longrightarrow> scheduled s = None)"
proof -
  have a: "story s = Some st \<and> route s \<noteq> None
      \<and> AppState_value READY_TO_PLAY \<le> AppState_value (appState s)
    \<longrightarrow> scheduled s =
          (if length (segments st) < currentPlayingIndex s + 2
              \<and> length (segments st) < totalSegmentsEstimate st \<and> \<not> isGeneratingRef s
           then Some (length (segments st) + 1) else None)"
    using scheduled_eq by blast
  have b: "scheduled s = Some i
    \<longrightarrow> schedulerEffect s =
          s\<lparr>isGeneratingRef := True, isBackgroundGenerating := True,
            inFlight := inFlight s @ [\<lparr>attemptIndex = i, attemptPhase = AwaitingText\<rparr>]\<rparr>"
    using schedulerEffect_Some by blast
  have c: "scheduled s = None \<longrightarrow> schedulerEffect s = s"
    by (simp add: schedulerEffect_def)
  have d: "story s = Some st \<and> route s \<noteq> None
      \<and> AppState_value READY_TO_PLAY \<le> AppState_value (appState s)
      \<and> totalSegmentsEstimate st = 2 \<and> map index (segments st) = [1]
      \<and> currentPlayingIndex s = 0 \<and> \<not> isGeneratingRef s
    \<longrightarrow> scheduled s = Some 2"
  proof
    assume h: "story s = Some st \<and> route s \<noteq> None
      \<and> AppState_value READY_TO_PLAY \<le> AppState_value (appState s)
      \<and> totalSegmentsEstimate st = 2 \<and> map index (segments st) = [1]
      \<and> currentPlayingIndex s = 0 \<and> \<not> isGeneratingRef s"
    then have "length (map index (segments st)) = 1" by simp
    then have "length (segments st) = 1" by simp
    with h show "scheduled s = Some 2" by (simp add: scheduled_eq)
  qed
  have e: "story s = Some st \<and> totalSegmentsEstimate st = 2 \<and> length (segments st) = 2
    \<longrightarrow> scheduled s = None"
    by (simp add: scheduled_def Let_def)
  from a b c d e show ?thesis by blast
qed


theorem scheduler_trigger_witness:
  "scheduled (run journeyB) = Some 2
   \<and> inFlight (schedulerEffect (run journeyB)) = [\<lparr>attemptIndex = 2, attemptPhase = AwaitingText\<rparr>]
   \<and> scheduled (run (journeyB @ [Schedule])) = None
   \<and> schedulerEffect (run (journeyB @ [Schedule])) = run (journeyB @ [Schedule])
   \<and> map index (segments (initialStory routeB (JsonArray [''b1'', ''b2'']) ''B one'' \<lparr>duration = 18\<rparr> [])) = [1]
   \<and> scheduled (run (journeyB @ [Schedule, TextSettles 0 (Resolves 4000 ''B two''),
        AudioSettles 0 (Resolves 5000 \<lparr>duration = 19\<rparr>), SegmentChange 1])) = None"
  using scheduler_trigger
    [of "run journeyB" "initialStory routeB (JsonArray [''b1'', ''b2'']) ''B one'' \<lparr>duration = 18\<rparr> []" 2]
    scheduler_trigger
    [of "run (journeyB @ [Schedule])" "initialStory routeB (JsonArray [''b1'', ''b2'']) ''B one'' \<lparr>duration = 18\<rparr> []" 2]
    scheduler_trigger
    [of "run (journeyB @ [Schedule, TextSettles 0 (Resolves 4000 ''B two''),
        AudioSettles 0 (Resolves 5000 \<lparr>duration = 19\<rparr>), SegmentChange 1])"
        "(initialStory routeB (JsonArray [''b1'', ''b2'']) ''B one'' \<lparr>duration = 18\<rparr> [])
           \<lparr>segments := [\<lparr>index = 1, segText = ''B one'', audioBuffer = Some \<lparr>duration = 18\<rparr>\<rparr>,
                          \<lparr>index = 2, segText = ''B two'', audioBuffer = Some \<lparr>duration = 19\<rparr>\<rparr>]\<rparr>" 2]
  by (simp add: app_defs example_defs)


subsection \<open>Ordering of the story\<close>

lemma arrive_ascending:
  assumes "ascending st"
  shows "\<exists>st'. foldl arrive (Some st) arrivals = Some st' \<and> ascending st'"
  using assms
proof (induction arrivals arbitrary: st)
  case Nil
  then show ?case by simp
next
  case (Cons a arrivals)
  obtain idx reply buf where a: "a = (idx, reply, buf)" by (cases a) auto
  obtain st1 where st1: "completeChapter idx reply buf (Some st) = Some st1"
    unfolding completeChapter_def using insertSegment_Some by blast
  have "index ((generateSegment_result idx reply)\<lparr>audioBuffer := Some buf\<rparr>) = idx"
    by (simp add: generateSegment_result_def)
  then have "ascending st1"
    using ascending_insertSegment[OF Cons.prems _ st1[unfolded completeChapter_def]] by blast
  from Cons.IH[OF this] show ?case using a st1 by simp
qed

text \<open>
  C3. Whatever chapter completions arrive, for whatever indices and in whatever order,
  a story whose chapters are in strictly ascending index order stays so, and so has no
  two chapters with the same index; the story of every state that a sequence of events
  reaches is in strictly ascending order without duplicates. A completed chapter is
  inserted, and the array sorted by index, only if no chapter with that index exists;
  otherwise the story is returned as it is.
\<close>

theorem chapters_strictly_ascending:
  "(sorted_wrt (<) (map index (segments st))
    \<longrightarrow> (\<exists>st'. foldl arrive (Some st) arrivals = Some st'
              \<and> sorted_wrt (<) (map index (segments st'))
              \<and> distinct (map index (segments st'))))
   \<and> (story (run evs) = Some st2
    \<longrightarrow> sorted_wrt (<) (map index (segments st2)) \<and> distinct (map index (segments st2)))
   \<and> (list_ex (\<lambda>s. index s = idx) (segments st)
    \<longrightarrow> insertSegment idx seg (Some st) = Some st)
   \<and> (\<not> list_ex (\<lambda>s. index s = idx) (segments st)
    \<longrightarrow> insertSegment idx seg (Some st)
          = Some (st\<lparr>segments := sort_key index (segments st @ [seg])\<rparr>))"
proof -
  have a: "sorted_wrt (<) (map index (segments st))
    \<longrightarrow> (\<exists>st'. foldl arrive (Some st) arrivals = Some st'
              \<and> sorted_wrt (<) (map index (segments st'))
              \<and> distinct (map index (segments st')))"
  proof
    assume "sorted_wrt (<) (map index (segments st))"
    then have "ascending st" by (simp add: ascending_def)
    from arrive_ascending[OF this, of arrivals]
    obtain st' where "foldl arrive (Some st) arrivals = Some st'" "ascending st'" by blast
    then show "\<exists>st'. foldl arrive (Some st) arrivals = Some st'
              \<and> sorted_wrt (<) (map index (segments st'))
              \<and> distinct (map index (segments st'))"
      by (auto simp: ascending_def strict_sorted_iff)
  qed
  have b: "story (run evs) = Some st2
    \<longrightarrow> sorted_wrt (<) (map index (segments st2)) \<and> distinct (map index (segments st2))"
  proof
    assume h: "story (run evs) = Some st2"
    have "storyAscending (run evs)" by (rule storyAscending_run)
    with h have "sorted_wrt (<) (map index (segments st2))"
      by (simp add: storyAscending_def ascending_def)
    then show "sorted_wrt (<) (map index (segments st2)) \<and> distinct (map index (segments st2))"
      by (simp add: strict_sorted_iff)
  qed
  have c: "list_ex (\<lambda>s. index s = idx) (segments st)
    \<longrightarrow> insertSegment idx seg (Some st) = Some st"
    by (simp add: insertSegment_def)
  have d: "\<not> list_ex (\<lambda>s. index s = idx) (segments st)
    \<longrightarrow> insertSegment idx seg (Some st)
          = Some (st\<lparr>segments := sort_key index (segments st @ [seg])\<rparr>)"
    by (simp add: insertSegment_def)
  from a b c d show ?thesis by blast
qed


theorem chapters_strictly_ascending_witness:
  "sorted_wrt (<) (map index (segments storyOne))
   \<and> foldl arrive (Some storyOne)
        [(3, ''A three'', \<lparr>duration = 22\<rparr>), (2, ''A two'', \<lparr>duration = 21\<rparr>),
         (3, ''again'', \<lparr>duration = 1\<rparr>)]
       = Some (storyOne\<lparr>segments :=
           [\<lparr>index = 1, segText = ''A one'', audioBuffer = Some \<lparr>duration = 20\<rparr>\<rparr>,
            \<lparr>index = 2, segText = ''A two'', audioBuffer = Some \<lparr>duration = 21\<rparr>\<rparr>,
            \<lparr>index = 3, segText = ''A three'', audioBuffer = Some \<lparr>duration = 22\<rparr>\<rparr>]\<rparr>)
   \<and> story (run staleRun) = Some staleStory
   \<and> sorted_wrt (<) (map index (segments staleStory))
   \<and> list_ex (\<lambda>s. index s = 1) (segments storyOne)
   \<and> insertSegment 1 \<lparr>index = 1, segText = ''late'', audioBuffer = None\<rparr> (Some storyOne)
       = Some storyOne"
  using chapters_strictly_ascending
    [of storyOne "[(3, ''A three'', \<lparr>duration = 22\<rparr>), (2, ''A two'', \<lparr>duration = 21\<rparr>),
         (3, ''again'', \<lparr>duration = 1\<rparr>)]" staleRun staleStory 1
        "\<lparr>index = 1, segText = ''late'', audioBuffer = None\<rparr>"]
  by (simp add: app_defs example_defs completeChapter_def)


subsection \<open>Failure of a background attempt\<close>

lemma finallyRelease_single:
  "inFlight s = [a] \<Longrightarrow>
     finallyRelease 0 s = s\<lparr>isGeneratingRef := False, isBackgroundGenerating := False, inFlight := []\<rparr>"
  by (simp add: finallyRelease_def)

lemma retry_after_release:
  assumes "inFlight s = [a]" "story s = Some st" "route s \<noteq> None"
    and "AppState_value READY_TO_PLAY \<le> AppState_value (appState s)"
    and "length (segments st) < currentPlayingIndex s + 2"
    and "length (segments st) < totalSegmentsEstimate st"
  shows "scheduled (finallyRelease 0 s) = Some (length (segments st) + 1)"
    and "inFlight (schedulerEffect (finallyRelease 0 s))
           = [\<lparr>attemptIndex = length (segments st) + 1, attemptPhase = AwaitingText\<rparr>]"
proof -
  let ?s' = "finallyRelease 0 s"
  have s': "?s' = s\<lparr>isGeneratingRef := False, isBackgroundGenerating := False, inFlight := []\<rparr>"
    using assms(1) by (rule finallyRelease_single)
  show sch: "scheduled ?s' = Some (length (segments st) + 1)"
    using assms by (simp add: s' scheduled_def Let_def)
  show "inFlight (schedulerEffect ?s')
           = [\<lparr>attemptIndex = length (segments st) + 1, attemptPhase = AwaitingText\<rparr>]"
    using schedulerEffect_Some[OF sch] by (simp add: s')
qed

text \<open>
  C4. If the chapter-text request of a background attempt fails or runs into its 60 second
  timeout, or its chapter-audio request fails or runs into its 100 second timeout, the
  story is left as it was, the lock is released and the attempt is over: it leaves no
  request behind, so nothing is retried within the attempt. A request that would resolve
  later than its timeout counts as timed out (one that resolves after exactly the timeout
  is still in time). A later evaluation of the scheduler, with the
  chapter still missing and the trigger condition still true, schedules the same index
  again.
\<close>

theorem background_failure_aborts:
  "(k < length (inFlight s) \<and> attemptPhase (inFlight s ! k) = AwaitingText
      \<and> (\<forall>v. withTimeout treq 60000 \<noteq> Resolved v)
    \<longrightarrow> story (textSettles k treq s) = story s
        \<and> \<not> isGeneratingRef (textSettles k treq s)
        \<and> inFlight (textSettles k treq s) = take k (inFlight s) @ drop (Suc k) (inFlight s))
   \<and> (k < length (inFlight s) \<and> attemptPhase (inFlight s ! k) = AwaitingAudio d
      \<and> (\<forall>v. withTimeout areq 100000 \<noteq> Resolved v)
    \<longrightarrow> story (audioSettles k areq s) = story s
        \<and> \<not> isGeneratingRef (audioSettles k areq s)
        \<and> inFlight (audioSettles k areq s) = take k (inFlight s) @ drop (Suc k) (inFlight s))
   \<and> (withTimeout (Resolves t txt) 60000 = TimedOut \<longleftrightarrow> 60000 < t)
   \<and> (withTimeout (Resolves t buf) 100000 = TimedOut \<longleftrightarrow> 100000 < t)
   \<and> (inFlight s = [a] \<and> attemptPhase a = AwaitingText
      \<and> (\<forall>v. withTimeout treq 60000 \<noteq> Resolved v)
      \<and> story s = Some st \<and> route s \<noteq> None
      \<and> AppState_value READY_TO_PLAY \<le> AppState_value (appState s)
      \<and> attemptIndex a = length (segments st) + 1
      \<and> length (segments st) < currentPlayingIndex s + 2
      \<and> length (segments st) < totalSegmentsEstimate st
    \<longrightarrow> inFlight (textSettles 0 treq s) = []
        \<and> scheduled (textSettles 0 treq s) = Some (attemptIndex a)
        \<and> inFlight (schedulerEffect (textSettles 0 treq s))
            = [\<lparr>attemptIndex = attemptIndex a, attemptPhase = AwaitingText\<rparr>])
   \<and> (inFlight s = [a] \<and> attemptPhase a = AwaitingAudio d
      \<and> (\<forall>v. withTimeout areq 100000 \<noteq> Resolved v)
      \<and> story s = Some st \<and> route s \<noteq> None
      \<and> AppState_value READY_TO_PLAY \<le> AppState_value (appState s)
      \<and> attemptIndex a = length (segments st) + 1
      \<and> length (segments st) < currentPlayingIndex s + 2
      \<and> length (segments st) < totalSegmentsEstimate st
    \<longrightarrow> inFlight (audioSettles 0 areq s) = []
        \<and> scheduled (audioSettles 0 areq s) = Some (attemptIndex a)
        \<and> inFlight (schedulerEffect (audioSettles 0 areq s))
            = [\<lparr>attemptIndex = attemptIndex a, attemptPhase = AwaitingText\<rparr>])"
proof -
  have a: "k < length (inFlight s) \<and> attemptPhase (inFlight s ! k) = AwaitingText
      \<and> (\<forall>v. withTimeout treq 60000 \<noteq> Resolved v)
    \<longrightarrow> story (textSettles k treq s) = story s
        \<and> \<not> isGeneratingRef (textSettles k treq s)
        \<and> inFlight (textSettles k treq s) = take k (inFlight s) @ drop (Suc k) (inFlight s)"
    by (auto simp: textSettles_failure finallyRelease_def)
  have b: "k < length (inFlight s) \<and> attemptPhase (inFlight s ! k) = AwaitingAudio d
      \<and> (\<forall>v. withTimeout areq 100000 \<noteq> Resolved v)
    \<longrightarrow> story (audioSettles k areq s) = story s
        \<and> \<not> isGeneratingRef (audioSettles k areq s)
        \<and> inFlight (audioSettles k areq s) = take k (inFlight s) @ drop (Suc k) (inFlight s)"
    by (auto simp: audioSettles_failure finallyRelease_def)
  have c: "withTimeout (Resolves t txt) 60000 = TimedOut \<longleftrightarrow> 60000 < t" by simp
  have c': "withTimeout (Resolves t buf) 100000 = TimedOut \<longleftrightarrow> 100000 < t" by simp
  have e: "inFlight s = [a] \<and> attemptPhase a = AwaitingText
      \<and> (\<forall>v. withTimeout treq 60000 \<noteq> Resolved v)
      \<and> story s = Some st \<and> route s \<noteq> None
      \<and> AppState_value READY_TO_PLAY \<le> AppState_value (appState s)
      \<and> attemptIndex a = length (segments st) + 1
      \<and> length (segments st) < currentPlayingIndex s + 2
      \<and> length (segments st) < totalSegmentsEstimate st
    \<longrightarrow> inFlight (textSettles 0 treq s) = []
        \<and> scheduled (textSettles 0 treq s) = Some (attemptIndex a)
        \<and> inFlight (schedulerEffect (textSettles 0 treq s))
            = [\<lparr>attemptIndex = attemptIndex a, attemptPhase = AwaitingText\<rparr>]"
  proof
    assume h: "inFlight s = [a] \<and> attemptPhase a = AwaitingText
      \<and> (\<forall>v. withTimeout treq 60000 \<noteq> Resolved v)
      \<and> story s = Some st \<and> route s \<noteq> None
      \<and> AppState_value READY_TO_PLAY \<le> AppState_value (appState s)
      \<and> attemptIndex a = length (segments st) + 1
      \<and> length (segments st) < currentPlayingIndex s + 2
      \<and> length (segments st) < totalSegmentsEstimate st"
    then have eq: "textSettles 0 treq s = finallyRelease 0 s"
      by (intro textSettles_failure) simp_all
    show "inFlight (textSettles 0 treq s) = []
        \<and> scheduled (textSettles 0 treq s) = Some (attemptIndex a)
        \<and> inFlight (schedulerEffect (textSettles 0 treq s))
            = [\<lparr>attemptIndex = attemptIndex a, attemptPhase = AwaitingText\<rparr>]"
      using h retry_after_release[of s a st] finallyRelease_single[of s a]
      by (simp add: eq)
  qed
  have f: "inFlight s = [a] \<and> attemptPhase a = AwaitingAudio d
      \<and> (\<forall>v. withTimeout areq 100000 \<noteq> Resolved v)
      \<and> story s = Some st \<and> route s \<noteq> None
      \<and> AppState_value READY_TO_PLAY \<le> AppState_value (appState s)
      \<and> attemptIndex a = length (segments st) + 1
      \<and> length (segments st) < currentPlayingIndex s + 2
      \<and> length (segments st) < totalSegmentsEstimate st
    \<longrightarrow> inFlight (audioSettles 0 areq s) = []
        \<and> scheduled (audioSettles 0 areq s) = Some (attemptIndex a)
        \<and> inFlight (schedulerEffect (audioSettles 0 areq s))
            = [\<lparr>attemptIndex = attemptIndex a, attemptPhase = AwaitingText\<rparr>]"
  proof
    assume h: "inFlight s = [a] \<and> attemptPhase a = AwaitingAudio d
      \<and> (\<forall>v. withTimeout areq 100000 \<noteq> Resolved v)
      \<and> story s = Some st \<and> route s \<noteq> None
      \<and> AppState_value READY_TO_PLAY \<le> AppState_value (appState s)
      \<and> attemptIndex a = length (segments st) + 1
      \<and> length (segments st) < currentPlayingIndex s + 2
      \<and> length (segments st) < totalSegmentsEstimate st"
    then have eq: "audioSettles 0 areq s = finallyRelease 0 s"
      by (intro audioSettles_failure[where d = d]) simp_all
    show "inFlight (audioSettles 0 areq s) = []
        \<and> scheduled (audioSettles 0 areq s) = Some (attemptIndex a)
        \<and> inFlight (schedulerEffect (audioSettles 0 areq s))
            = [\<lparr>attemptIndex = attemptIndex a, attemptPhase = AwaitingText\<rparr>]"
      using h retry_after_release[of s a st] finallyRelease_single[of s a]
      by (simp add: eq)
  qed
  from a b c c' e f show ?thesis by blast
qed

theorem background_failure_aborts_witness:
  "inFlight (run (journeyA @ [Schedule])) = [\<lparr>attemptIndex = 2, attemptPhase = AwaitingText\<rparr>]
   \<and> withTimeout (Resolves 60001 ''too late'') 60000 = TimedOut
   \<and> withTimeout (Resolves 60000 ''in time'') 60000 = Resolved ''in time''
   \<and> story (textSettles 0 (Resolves 60001 ''too late'') (run (journeyA @ [Schedule]))) = Some storyOne
   \<and> \<not> isGeneratingRef (textSettles 0 (Resolves 60001 ''too late'') (run (journeyA @ [Schedule])))
   \<and> inFlight (textSettles 0 (Resolves 60001 ''too late'') (run (journeyA @ [Schedule]))) = []
   \<and> scheduled (textSettles 0 (Resolves 60001 ''too late'') (run (journeyA @ [Schedule]))) = Some 2
   \<and> story (audioSettles 0 (Rejects 700 False)
        (run (journeyA @ [Schedule, TextSettles 0 (Resolves 4000 ''A two'')]))) = Some storyOne
   \<and> \<not> isGeneratingRef (audioSettles 0 (Rejects 700 False)
        (run (journeyA @ [Schedule, TextSettles 0 (Resolves 4000 ''A two'')])))
   \<and> scheduled (audioSettles 0 (Rejects 700 False)
        (run (journeyA @ [Schedule, TextSettles 0 (Resolves 4000 ''A two'')]))) = Some 2
   \<and> withTimeout (Resolves 100001 \<lparr>duration = 21\<rparr>) 100000 = TimedOut"
  using background_failure_aborts
    [of 0 "run (journeyA @ [Schedule])" "Resolves 60001 ''too late''"
        "\<lparr>index = 2, segText = ''A two'', audioBuffer = None\<rparr>" "Rejects 700 False"
        60001 "''too late''" "\<lparr>duration = 21\<rparr>"
        "\<lparr>attemptIndex = 2, attemptPhase = AwaitingText\<rparr>" storyOne]
    background_failure_aborts
    [of 0 "run (journeyA @ [Schedule, TextSettles 0 (Resolves 4000 ''A two'')])"
        "Resolves 60001 ''too late''"
        "\<lparr>index = 2, segText = ''A two'', audioBuffer = None\<rparr>" "Rejects 700 False"
        100001 "''too late''" "\<lparr>duration = 21\<rparr>"
        "\<lparr>attemptIndex = 2, attemptPhase = AwaitingAudio
             \<lparr>index = 2, segText = ''A two'', audioBuffer = None\<rparr>\<rparr>" storyOne]
  by (simp add: app_defs example_defs)


section \<open>The outline request\<close>

text \<open>
  C9. The outline request returns at most \<open>totalSegments\<close> hints: the first
  \<open>totalSegments\<close> entries of the array the provider replied with, so exactly
  \<open>totalSegments\<close> when the provider sent at least that many and all of them (fewer) when
  it sent fewer; an absent reply text gives the empty outline. When the call throws or the
  reply is not a JSON array, the result is the filler hint repeated \<open>totalSegments\<close>
  times.
\<close>

theorem outline_at_most_total:
  "length (generateStoryOutline reply n) \<le> n
   \<and> generateStoryOutline (JsonArray hints) n = take n hints
   \<and> (n \<le> length hints \<longrightarrow> length (generateStoryOutline (JsonArray hints) n) = n)
   \<and> (length hints < n \<longrightarrow> generateStoryOutline (JsonArray hints) n = hints)
   \<and> generateStoryOutline NoText n = []
   \<and> (reply = CallThrows \<or> reply = Unparseable \<or> reply = JsonNotArray
      \<longrightarrow> generateStoryOutline reply n = replicate n fallbackOutlineHint)"
proof -
  have bound: "length (generateStoryOutline reply n) \<le> n"
  proof (cases reply)
    case (JsonArray hs)
    then show ?thesis by simp
  qed simp_all
  have cut: "generateStoryOutline (JsonArray hints) n = take n hints" by simp
  have enough: "n \<le> length hints \<longrightarrow> length (generateStoryOutline (JsonArray hints) n) = n"
    by simp
  have short: "length hints < n \<longrightarrow> generateStoryOutline (JsonArray hints) n = hints"
    by simp
  have absent: "generateStoryOutline NoText n = []" by simp
  have fallback: "reply = CallThrows \<or> reply = Unparseable \<or> reply = JsonNotArray
      \<longrightarrow> generateStoryOutline reply n = replicate n fallbackOutlineHint"
    by auto
  from bound cut enough short absent fallback show ?thesis by blast
qed

theorem outline_at_most_total_witness:
  "generateStoryOutline (JsonArray [''h1'', ''h2'', ''h3'']) 2 = [''h1'', ''h2'']
   \<and> generateStoryOutline (JsonArray [''h1'']) 2 = [''h1'']
   \<and> generateStoryOutline Unparseable 2 = [fallbackOutlineHint, fallbackOutlineHint]"
  using outline_at_most_total[of "JsonArray [''h1'', ''h2'', ''h3'']" 2 "[''h1'', ''h2'', ''h3'']"]
    outline_at_most_total[of Unparseable 2 "[''h1'']"]
  by (simp add: numeral_2_eq_2)


text \<open>
  The outline need not have \<open>totalSegments\<close> entries: a provider reply with a single hint,
  for a journey of two chapters, is returned as it is.
\<close>

theorem outline_length_counterexample:
  "length (generateStoryOutline (JsonArray [''Leaving the ghats'']) 2) \<noteq> 2"
  by simp


section \<open>Contiguity of the chapter array\<close>

lemma contiguous_no_next:
  assumes "contiguous st"
  shows "\<not> list_ex (\<lambda>s. index s = length (segments st) + 1) (segments st)"
proof
  assume "list_ex (\<lambda>s. index s = length (segments st) + 1) (segments st)"
  then obtain x where "x \<in> set (segments st)" "index x = length (segments st) + 1"
    by (auto simp: list_ex_iff)
  then have "length (segments st) + 1 \<in> set (map index (segments st))"
    by (metis image_eqI set_map)
  moreover have "set (map index (segments st)) = {1 ..< Suc (length (segments st))}"
    using assms by (simp only: contiguous_def set_upt)
  ultimately show False by simp
qed

lemma contiguous_insertSegment:
  assumes "contiguous st" "index seg = length (segments st) + 1"
  shows "insertSegment (length (segments st) + 1) seg (Some st)
           = Some (st\<lparr>segments := segments st @ [seg]\<rparr>)"
    and "contiguous (st\<lparr>segments := segments st @ [seg]\<rparr>)"
proof -
  have m: "map index (segments st @ [seg]) = [1 ..< Suc (Suc (length (segments st)))]"
    using assms by (simp add: contiguous_def)
  then have "sorted (map index (segments st @ [seg]))" by (simp only: sorted_upt)
  then have "sort_key index (segments st @ [seg]) = segments st @ [seg]"
    by (rule sort_key_id_if_sorted)
  then show "insertSegment (length (segments st) + 1) seg (Some st)
           = Some (st\<lparr>segments := segments st @ [seg]\<rparr>)"
    using contiguous_no_next[OF assms(1)] by (simp add: insertSegment_def)
  show "contiguous (st\<lparr>segments := segments st @ [seg]\<rparr>)"
    using m by (simp add: contiguous_def)
qed

lemma contiguous_initialStory: "contiguous (initialStory d oreply reply buf imgs)"
  by (simp add: contiguous_def initialStory_def Let_def generateSegment_result_def)

lemma scheduled_index:
  "scheduled s = Some i \<Longrightarrow> story s = Some st \<Longrightarrow> i = length (segments st) + 1"
  by (auto simp: scheduled_def Let_def split: if_splits)

lemma inOrder_schedulerEffect:
  assumes "singleFlight s" "inOrder s"
  shows "inOrder (schedulerEffect s)"
proof (cases "scheduled s")
  case None
  then show ?thesis using assms by (simp add: schedulerEffect_def)
next
  case (Some i)
  then obtain st where st: "story s = Some st"
    using scheduled_SomeD[OF Some] by auto
  have "inFlight s = []"
    using scheduled_SomeD[OF Some] assms(1) by (simp add: singleFlight_def)
  then show ?thesis
    using assms(2) st scheduled_index[OF Some st]
    by (simp add: schedulerEffect_Some[OF Some] inOrder_def)
qed

lemma inOrder_finallyRelease: "inOrder s \<Longrightarrow> inOrder (finallyRelease k s)"
  by (auto simp: inOrder_def finallyRelease_def list_all_take_drop split: option.splits)

lemma inOrder_textSettles:
  assumes "inOrder s"
  shows "inOrder (textSettles k req s)"
proof (cases "k < length (inFlight s) \<and> attemptPhase (inFlight s ! k) = AwaitingText")
  case False
  then show ?thesis using assms by (auto simp: textSettles_def)
next
  case True
  show ?thesis
  proof (cases "withTimeout req 60000")
    case (Resolved reply)
    have "\<And>st. story s = Some st \<Longrightarrow>
           list_all (\<lambda>a. attemptIndex a = length (segments st) + 1)
            ((inFlight s)[k := (inFlight s ! k)\<lparr>attemptPhase :=
               AwaitingAudio (generateSegment_result (attemptIndex (inFlight s ! k)) reply)\<rparr>])"
      using assms True
      by (intro list_all_update) (simp_all add: inOrder_def list_all_length)
    then show ?thesis
      using True Resolved assms
      by (simp add: textSettles_def inOrder_def split: option.splits)
  qed (use True assms in \<open>simp_all add: textSettles_def inOrder_finallyRelease\<close>)
qed

lemma inOrder_audioSettles:
  assumes "singleFlight s" "storyAscending s" "inOrder s"
  shows "inOrder (audioSettles k req s)"
proof (cases "k < length (inFlight s)")
  case False
  then show ?thesis using assms by (simp add: audioSettles_def)
next
  case True
  then have "length (inFlight s) = 1" and k: "k = 0"
    using assms(1) by (simp_all add: singleFlight_def)
  then obtain a where single: "inFlight s = [a]"
    by (cases "inFlight s") simp_all
  show ?thesis
  proof (cases "attemptPhase (inFlight s ! k)")
    case AwaitingText
    then show ?thesis using True assms by (simp add: audioSettles_def)
  next
    case (AwaitingAudio d)
    have own: "index d = attemptIndex (inFlight s ! k)"
      using assms(2) True AwaitingAudio
      by (auto simp: storyAscending_def list_all_length)
    show ?thesis
    proof (cases "withTimeout req 100000")
      case (Resolved buf)
      have "inOrder (finallyRelease k
              (s\<lparr>story := insertSegment (attemptIndex (inFlight s ! k))
                            (d\<lparr>audioBuffer := Some buf\<rparr>) (story s)\<rparr>))"
      proof (cases "story s")
        case None
        then show ?thesis by (simp add: inOrder_def finallyRelease_def insertSegment_def)
      next
        case (Some st)
        have c: "contiguous st" and i: "attemptIndex (inFlight s ! k) = length (segments st) + 1"
          using assms(3) Some True by (simp_all add: inOrder_def list_all_length)
        have "index (d\<lparr>audioBuffer := Some buf\<rparr>) = length (segments st) + 1"
          using own i by simp
        from contiguous_insertSegment[OF c this] show ?thesis
          using Some i by (simp add: inOrder_def finallyRelease_def single k)
      qed
      then show ?thesis using True AwaitingAudio Resolved by (simp add: audioSettles_def)
    qed (use True AwaitingAudio assms in
          \<open>simp_all add: audioSettles_def inOrder_finallyRelease\<close>)
  qed
qed

lemma inOrder_startFailed: "inOrder (startFailed e s) = inOrder s"
  by (simp add: inOrder_def startFailed_def split: option.splits)

lemma settle_stores:
  assumes "storesStory oreq treq areq"
  shows "\<exists>oreply reply buf.
           handleGenerateStory_settle d oreq treq areq imgs s
             = s\<lparr>story := Some (initialStory d oreply reply buf imgs),
                 appState := READY_TO_PLAY\<rparr>"
  using assms
  by (auto simp: handleGenerateStory_settle_def storesStory_def split: settled.splits)

lemma settle_fails:
  assumes "\<not> storesStory oreq treq areq"
  shows "\<exists>e. handleGenerateStory_settle d oreq treq areq imgs s = startFailed e s"
  using assms
  by (auto simp: handleGenerateStory_settle_def storesStory_def split: settled.splits)

lemma inOrder_step:
  assumes "singleFlight s" "storyAscending s" "inOrder s" "startsFresh s e"
  shows "inOrder (step s e)"
proof (cases e)
  case Schedule
  then show ?thesis using assms by (simp add: inOrder_schedulerEffect)
next
  case (TextSettles k req)
  then show ?thesis using assms by (simp add: inOrder_textSettles)
next
  case (AudioSettles k req)
  then show ?thesis using assms by (simp add: inOrder_audioSettles)
next
  case (SettleJourney d oreq treq areq imgs)
  show ?thesis
  proof (cases "storesStory oreq treq areq")
    case True
    then have "inFlight s = []" using assms(4) SettleJourney by simp
    moreover obtain oreply reply buf where
      "handleGenerateStory_settle d oreq treq areq imgs s
         = s\<lparr>story := Some (initialStory d oreply reply buf imgs), appState := READY_TO_PLAY\<rparr>"
      using settle_stores[OF True] by blast
    ultimately show ?thesis
      using SettleJourney by (simp add: inOrder_def contiguous_initialStory)
  next
    case False
    then obtain e where "handleGenerateStory_settle d oreq treq areq imgs s = startFailed e s"
      using settle_fails by blast
    then show ?thesis
      using SettleJourney assms(3) by (simp add: inOrder_startFailed)
  qed
qed (use assms in \<open>auto simp: inOrder_def handleReset_def handleGenerateStory_begin_def
                         split: option.splits\<close>)

lemma inOrder_foldl:
  assumes "singleFlight s" "storyAscending s" "inOrder s" "freshStarts s evs"
  shows "inOrder (foldl step s evs)"
  using assms
proof (induction evs arbitrary: s)
  case Nil
  then show ?case by simp
next
  case (Cons e evs)
  have f: "startsFresh s e" "freshStarts (step s e) evs"
    using Cons.prems(4) by simp_all
  have "inOrder (foldl step (step s e) evs)"
    using Cons.prems f
    by (intro Cons.IH singleFlight_step storyAscending_step inOrder_step)
  then show ?case by simp
qed

lemma inOrder_run: "freshStarts App_initial evs \<Longrightarrow> inOrder (run evs)"
  unfolding run_def
  by (rule inOrder_foldl)
     (simp_all add: singleFlight_def storyAscending_def inOrder_def App_initial_def)

lemma contiguous_nth:
  "contiguous st \<Longrightarrow> k < length (segments st) \<Longrightarrow> index (segments st ! k) = k + 1"
proof -
  assume c: "contiguous st" and k: "k < length (segments st)"
  have "index (segments st ! k) = map index (segments st) ! k" using k by simp
  also have "\<dots> = [1 ..< Suc (length (segments st))] ! k" using c by (simp add: contiguous_def)
  also have "\<dots> = k + 1" using k by (simp del: upt_Suc)
  finally show ?thesis .
qed


lemma contiguous_find:
  assumes "contiguous st"
  shows "find (\<lambda>s. index s = Suc k) (segments st) = segmentAt st k"
proof (cases "k < length (segments st)")
  case True
  have "index (segments st ! k) = Suc k"
    using contiguous_nth[OF assms True] by simp
  moreover have "\<forall>j<k. index (segments st ! j) \<noteq> Suc k"
    using contiguous_nth[OF assms] True by auto
  ultimately have "find (\<lambda>s. index s = Suc k) (segments st) = Some (segments st ! k)"
    using True unfolding find_Some_iff by blast
  then show ?thesis using True by (simp add: segmentAt_def)
next
  case False
  have "\<And>x. x \<in> set (segments st) \<Longrightarrow> index x \<noteq> Suc k"
  proof -
    fix x assume "x \<in> set (segments st)"
    then obtain j where j: "j < length (segments st)" "x = segments st ! j"
      by (auto simp: in_set_conv_nth)
    then have "index x = j + 1" using contiguous_nth[OF assms] by simp
    then show "index x \<noteq> Suc k" using j False by simp
  qed
  then have "find (\<lambda>s. index s = Suc k) (segments st) = None"
    unfolding find_None_iff by blast
  then show ?thesis using False by (simp add: segmentAt_def)
qed

lemma chapterAudio_contiguous:
  "contiguous st \<Longrightarrow> chapterAudio st (Suc k) = audioOf (segmentAt st k)"
  by (simp add: chapterAudio_def contiguous_find)

lemma step_appends:
  assumes "singleFlight s" "storyAscending s" "inOrder s" "inJourney e" "story s = Some st"
  shows "\<exists>more. story (step s e) = Some (st\<lparr>segments := segments st @ more\<rparr>)"
proof (cases e)
  case Schedule
  have "story (schedulerEffect s) = story s"
    by (simp add: schedulerEffect_def generateNextSegment_def split: option.splits)
  then have "story (step s e) = Some (st\<lparr>segments := segments st @ []\<rparr>)"
    using Schedule assms(5) by simp
  then show ?thesis by blast
next
  case (TextSettles k req)
  have "story (textSettles k req s) = story s"
    by (simp add: textSettles_def finallyRelease_def split: settled.splits)
  then have "story (step s e) = Some (st\<lparr>segments := segments st @ []\<rparr>)"
    using TextSettles assms(5) by simp
  then show ?thesis by blast
next
  case (AudioSettles k req)
  show ?thesis
  proof (cases "k < length (inFlight s)")
    case False
    then have "story (step s e) = Some (st\<lparr>segments := segments st @ []\<rparr>)"
      using AudioSettles assms(5) by (simp add: audioSettles_def)
    then show ?thesis by blast
  next
    case True
    show ?thesis
    proof (cases "attemptPhase (inFlight s ! k)")
      case AwaitingText
      then have "story (step s e) = Some (st\<lparr>segments := segments st @ []\<rparr>)"
        using True AudioSettles assms(5) by (simp add: audioSettles_def)
      then show ?thesis by blast
    next
      case (AwaitingAudio d)
      have own: "index d = attemptIndex (inFlight s ! k)"
        using assms(2) True AwaitingAudio by (auto simp: storyAscending_def list_all_length)
      have c: "contiguous st" and i: "attemptIndex (inFlight s ! k) = length (segments st) + 1"
        using assms(3,5) True by (simp_all add: inOrder_def list_all_length)
      show ?thesis
      proof (cases "withTimeout req 100000")
        case (Resolved buf)
        have "index (d\<lparr>audioBuffer := Some buf\<rparr>) = length (segments st) + 1"
          using own i by simp
        from contiguous_insertSegment(1)[OF c this]
        have "story (step s e)
                = Some (st\<lparr>segments := segments st @ [d\<lparr>audioBuffer := Some buf\<rparr>]\<rparr>)"
          using True AwaitingAudio Resolved AudioSettles assms(5) i
          by (simp add: audioSettles_def finallyRelease_def)
        then show ?thesis by blast
      next
        case (Rejected x)
        then have "story (step s e) = Some (st\<lparr>segments := segments st @ []\<rparr>)"
          using True AwaitingAudio AudioSettles assms(5)
          by (simp add: audioSettles_def finallyRelease_def)
        then show ?thesis by blast
      next
        case TimedOut
        then have "story (step s e) = Some (st\<lparr>segments := segments st @ []\<rparr>)"
          using True AwaitingAudio AudioSettles assms(5)
          by (simp add: audioSettles_def finallyRelease_def)
        then show ?thesis by blast
      qed
    qed
  qed
next
  case (SegmentChange i)
  then have "story (step s e) = Some (st\<lparr>segments := segments st @ []\<rparr>)"
    using assms(5) by simp
  then show ?thesis by blast
next
  case (SmoothProgressUpdate v)
  then have "story (step s e) = Some (st\<lparr>segments := segments st @ []\<rparr>)"
    using assms(5) by simp
  then show ?thesis by blast
qed (use assms(4) in simp_all)

lemma inJourney_startsFresh: "inJourney e \<Longrightarrow> startsFresh s e"
  by (cases e) simp_all

lemma foldl_appends:
  assumes "singleFlight s" "storyAscending s" "inOrder s" "list_all inJourney evs"
    and "story s = Some st"
  shows "\<exists>more. story (foldl step s evs) = Some (st\<lparr>segments := segments st @ more\<rparr>)"
  using assms
proof (induction evs arbitrary: s st)
  case Nil
  then have "story (foldl step s []) = Some (st\<lparr>segments := segments st @ []\<rparr>)" by simp
  then show ?case by blast
next
  case (Cons e evs)
  have e: "inJourney e" and evs: "list_all inJourney evs" using Cons.prems(4) by simp_all
  obtain m1 where m1: "story (step s e) = Some (st\<lparr>segments := segments st @ m1\<rparr>)"
    using step_appends[OF Cons.prems(1,2,3) e Cons.prems(5)] by blast
  have "\<exists>more. story (foldl step (step s e) evs)
          = Some ((st\<lparr>segments := segments st @ m1\<rparr>)
                    \<lparr>segments := segments (st\<lparr>segments := segments st @ m1\<rparr>) @ more\<rparr>)"
    using Cons.prems(1,2,3) e evs m1
    by (intro Cons.IH singleFlight_step storyAscending_step inOrder_step inJourney_startsFresh)
  then obtain m2 where "story (foldl step (step s e) evs)
          = Some (st\<lparr>segments := segments st @ (m1 @ m2)\<rparr>)"
    by auto
  then show ?case by auto
qed

lemma positions_stable:
  assumes "freshStarts App_initial evs" "list_all inJourney evs'"
    and "story (run evs) = Some st1" "story (run (evs @ evs')) = Some st2"
    and "k < length (segments st1)"
  shows "segmentAt st2 k = segmentAt st1 k"
proof -
  have r: "run (evs @ evs') = foldl step (run evs) evs'" by (simp add: run_def)
  have "\<exists>more. story (foldl step (run evs) evs')
          = Some (st1\<lparr>segments := segments st1 @ more\<rparr>)"
    using assms(2,3)
    by (intro foldl_appends singleFlight_run storyAscending_run inOrder_run[OF assms(1)])
  then obtain more where "st2 = st1\<lparr>segments := segments st1 @ more\<rparr>"
    using assms(4) r by auto
  then show ?thesis using assms(5) by (simp add: segmentAt_def nth_append)
qed

text \<open>
  C10. In every state reached by a run in which a journey's story is only created while
  no background attempt is in flight (no story is created while a request started under
  an earlier story is still pending; a journey start that fails creates no story and is
  not restricted), the chapter array is index-contiguous: the chapter at array position
  \<open>k\<close> has index \<open>k + 1\<close>. The scheduler only ever requests chapter \<open>buffered + 1\<close>, and
  the chapter that the playback engine addresses with its 0-based cursor \<open>k\<close> is chapter
  \<open>k + 1\<close>.
\<close>

theorem chapters_contiguous:
  "(freshStarts App_initial evs \<and> story (run evs) = Some st \<and> k < length (segments st)
    \<longrightarrow> index (segments st ! k) = k + 1)
   \<and> (freshStarts App_initial evs \<and> story (run evs) = Some st \<and> segmentAt st k = Some seg
    \<longrightarrow> index seg = k + 1)
   \<and> (scheduled s = Some i \<and> story s = Some st1 \<longrightarrow> i = length (segments st1) + 1)"
proof -
  have a: "freshStarts App_initial evs \<and> story (run evs) = Some st \<and> k < length (segments st)
    \<longrightarrow> index (segments st ! k) = k + 1"
  proof
    assume h: "freshStarts App_initial evs \<and> story (run evs) = Some st
      \<and> k < length (segments st)"
    then have "inOrder (run evs)" by (simp add: inOrder_run)
    with h have "contiguous st" by (simp add: inOrder_def)
    with h show "index (segments st ! k) = k + 1" by (simp add: contiguous_nth)
  qed
  have b: "freshStarts App_initial evs \<and> story (run evs) = Some st \<and> segmentAt st k = Some seg
    \<longrightarrow> index seg = k + 1"
    using a by (auto simp: segmentAt_def split: if_splits)
  have c: "scheduled s = Some i \<and> story s = Some st1 \<longrightarrow> i = length (segments st1) + 1"
    using scheduled_index by blast
  from a b c show ?thesis by blast
qed

theorem chapters_contiguous_witness:
  "freshStarts App_initial retryRun
   \<and> story (run retryRun) = Some retryStory
   \<and> index (segments retryStory ! 1) = 2
   \<and> segmentAt retryStory 1
       = Some \<lparr>index = 2, segText = ''B two'', audioBuffer = Some \<lparr>duration = 19\<rparr>\<rparr>
   \<and> scheduled (run journeyB) = Some 2"
  using chapters_contiguous
    [where evs = retryRun and st = retryStory and k = 1
       and seg = "\<lparr>index = 2, segText = ''B two'', audioBuffer = Some \<lparr>duration = 19\<rparr>\<rparr>"
       and s = "run journeyB" and i = 2
       and ?st1.0 = "initialStory routeB (JsonArray [''b1'', ''b2'']) ''B one'' \<lparr>duration = 18\<rparr> []"]
  by (simp add: app_defs player_defs example_defs storesStory_def)

text \<open>
  Without the restriction the array need not be contiguous: journey A requests its third
  chapter, is reset, journey B starts, and the pending request completes into journey B's
  story, which then holds the chapters with indices 1 and 3.
\<close>

theorem chapters_contiguous_counterexample:
  "story (run staleRun) = Some staleStory
   \<and> 1 < length (segments staleStory)
   \<and> index (segments staleStory ! 1) \<noteq> 1 + 1"
  by (simp add: app_defs example_defs)

section \<open>The playback engine\<close>

subsection \<open>The progress signal\<close>

text \<open>
  The story never holds more chapters than its estimate, and so the cursor of the playback
  engine, which starts at 0 and only moves at the end of a chapter, stays below the
  estimate.
\<close>

lemma calculateTotalSegments_ge_2: "2 \<le> calculateTotalSegments secs"
  by (simp add: calculateTotalSegments_def)

lemma length_insertSegment:
  "insertSegment idx seg (Some st) = Some st' \<Longrightarrow>
     length (segments st') \<le> Suc (length (segments st))
     \<and> totalSegmentsEstimate st' = totalSegmentsEstimate st"
  by (auto simp: insertSegment_def split: if_splits)

lemma withinEstimate_schedulerEffect:
  assumes "singleFlight s" "withinEstimate s"
  shows "withinEstimate (schedulerEffect s)"
proof (cases "scheduled s")
  case None
  then show ?thesis using assms by (simp add: schedulerEffect_def)
next
  case (Some i)
  then obtain st where st: "story s = Some st"
    using scheduled_SomeD[OF Some] by auto
  have e: "inFlight s = []"
    using scheduled_SomeD[OF Some] assms(1) by (simp add: singleFlight_def)
  have "length (segments st) < totalSegmentsEstimate st"
    using Some st by (auto simp: scheduled_def Let_def split: if_splits)
  then show ?thesis
    using st e by (simp add: schedulerEffect_Some[OF Some] withinEstimate_def)
qed

lemma withinEstimate_finallyRelease:
  "withinEstimate s \<Longrightarrow> withinEstimate (finallyRelease k s)"
  by (auto simp: withinEstimate_def finallyRelease_def split: option.splits)

lemma withinEstimate_textSettles: "withinEstimate s \<Longrightarrow> withinEstimate (textSettles k req s)"
  by (auto simp: textSettles_def withinEstimate_finallyRelease split: settled.splits)
     (auto simp: withinEstimate_def split: option.splits)

lemma withinEstimate_audioSettles:
  assumes "withinEstimate s"
  shows "withinEstimate (audioSettles k req s)"
proof (cases "k < length (inFlight s)")
  case False
  then show ?thesis using assms by (simp add: audioSettles_def)
next
  case True
  show ?thesis
  proof (cases "attemptPhase (inFlight s ! k)")
    case AwaitingText
    then show ?thesis using True assms by (simp add: audioSettles_def)
  next
    case (AwaitingAudio d)
    show ?thesis
    proof (cases "withTimeout req 100000")
      case (Resolved buf)
      have "withinEstimate (finallyRelease k
              (s\<lparr>story := insertSegment (attemptIndex (inFlight s ! k))
                            (d\<lparr>audioBuffer := Some buf\<rparr>) (story s)\<rparr>))"
      proof (cases "story s")
        case None
        then show ?thesis by (simp add: withinEstimate_def finallyRelease_def insertSegment_def)
      next
        case (Some st)
        obtain st' where st': "insertSegment (attemptIndex (inFlight s ! k))
                                (d\<lparr>audioBuffer := Some buf\<rparr>) (Some st) = Some st'"
          using insertSegment_Some by blast
        from length_insertSegment[OF st'] show ?thesis
          using Some st' True assms by (simp add: withinEstimate_def finallyRelease_def) arith
      qed
      then show ?thesis using True AwaitingAudio Resolved by (simp add: audioSettles_def)
    qed (use True AwaitingAudio assms in
          \<open>simp_all add: audioSettles_def withinEstimate_finallyRelease\<close>)
  qed
qed

lemma withinEstimate_startFailed: "withinEstimate (startFailed e s) = withinEstimate s"
  by (simp add: withinEstimate_def startFailed_def split: option.splits)

lemma withinEstimate_step:
  assumes "singleFlight s" "withinEstimate s"
  shows "withinEstimate (step s e)"
proof (cases e)
  case Schedule
  then show ?thesis using assms by (simp add: withinEstimate_schedulerEffect)
next
  case (TextSettles k req)
  then show ?thesis using assms by (simp add: withinEstimate_textSettles)
next
  case (AudioSettles k req)
  then show ?thesis using assms by (simp add: withinEstimate_audioSettles)
next
  case (SettleJourney d oreq treq areq imgs)
  have "length (inFlight s) \<le> 1" using assms(1) by (simp add: singleFlight_def)
  then have "withinEstimate
     (s\<lparr>story := Some (initialStory d oreply reply buf imgs), appState := READY_TO_PLAY\<rparr>)"
    for oreply reply buf
    using calculateTotalSegments_ge_2[of "durationSeconds d"]
    by (simp add: withinEstimate_def initialStory_def Let_def)
  then show ?thesis
    using assms SettleJourney
    by (auto simp: handleGenerateStory_settle_def withinEstimate_startFailed
             split: settled.splits)
qed (use assms in \<open>auto simp: withinEstimate_def handleReset_def handleGenerateStory_begin_def
                         split: option.splits\<close>)

lemma withinEstimate_foldl:
  "singleFlight s \<Longrightarrow> withinEstimate s \<Longrightarrow> withinEstimate (foldl step s evs)"
  by (induction evs arbitrary: s) (simp_all add: singleFlight_step withinEstimate_step)

lemma buffered_le_estimate:
  assumes "story (run evs) = Some st"
  shows "length (segments st) \<le> totalSegmentsEstimate st"
proof -
  have "withinEstimate (run evs)"
    unfolding run_def
    by (rule withinEstimate_foldl) (simp_all add: singleFlight_def withinEstimate_def App_initial_def)
  then show ?thesis using assms by (simp add: withinEstimate_def)
qed

lemma cursor_below_estimate:
  assumes "length (segments st) \<le> totalSegmentsEstimate st"
    and "currentSegmentIndex p < totalSegmentsEstimate st"
  shows "currentSegmentIndex (handleSegmentEnd st now p) < totalSegmentsEstimate st"
    and "currentSegmentIndex (togglePlayback st now p) = currentSegmentIndex p"
    and "currentSegmentIndex (bufferingEffect st now p) = currentSegmentIndex p"
  using assms
  by (auto simp: handleSegmentEnd_def togglePlayback_def bufferingEffect_def playSegment_def
                 stopAudio_def segmentAt_def Let_def
           split: option.splits if_splits)

lemma updateProgress_playing:
  assumes "isPlaying p" "\<not> isBuffering p" "audioContextRef p"
    and "audioOf (segmentAt st (currentSegmentIndex p)) = Some buf"
  shows "updateProgress st now p =
           Some ((real (currentSegmentIndex p) + min 1 ((now - startTimeRef p) / duration buf))
                   / real (totalSegmentsEstimate st))"
  using assms by (simp add: updateProgress_def Let_def)

lemma progress_in_unit_interval:
  fixes e d :: real
  assumes "i < n" "0 \<le> e" "0 < d"
  shows "0 \<le> (real i + min 1 (e / d)) / real n" and "(real i + min 1 (e / d)) / real n \<le> 1"
proof -
  have q: "0 \<le> e / d" using assms by simp
  then have m: "0 \<le> min 1 (e / d)" by simp
  show "0 \<le> (real i + min 1 (e / d)) / real n" using m by simp
  have "real i + min 1 (e / d) \<le> real i + 1" by simp
  also have "\<dots> \<le> real n" using assms(1) by simp
  finally show "(real i + min 1 (e / d)) / real n \<le> 1"
    using assms(1) by (simp add: divide_le_eq)
qed

text \<open>
  C5. On every animation frame while the engine is playing and not buffering (the audio
  context exists and the current chapter has audio), the value passed to
  \<^verbatim>\<open>onSmoothProgressUpdate\<close> is
  \<open>(currentSegmentIndex + min 1 (elapsed / duration)) / totalSegmentsEstimate\<close> with
  \<open>elapsed\<close> the audio clock minus the recorded start time; the application stores it and
  the map widget works with it clamped to \<open>[0, 1]\<close>. While the chapter index is below the
  estimate (as it is by \<open>buffered_le_estimate\<close> and \<open>cursor_below_estimate\<close>), the clock
  has not run backwards and the chapter has a positive duration, the value lies in
  \<open>[0, 1]\<close> already, so that the emitted value is the clamped one.
\<close>

theorem progress_signal:
  "(isPlaying p \<and> \<not> isBuffering p \<and> audioContextRef p
      \<and> audioOf (segmentAt st (currentSegmentIndex p)) = Some buf
    \<longrightarrow> updateProgress st now p =
          Some ((real (currentSegmentIndex p) + min 1 ((now - startTimeRef p) / duration buf))
                  / real (totalSegmentsEstimate st))
        \<and> smoothProgress (animationFrame st now p s) =
          (real (currentSegmentIndex p) + min 1 ((now - startTimeRef p) / duration buf))
            / real (totalSegmentsEstimate st)
        \<and> InlineMap_progress (smoothProgress (animationFrame st now p s)) =
          max 0 (min 1
            ((real (currentSegmentIndex p) + min 1 ((now - startTimeRef p) / duration buf))
               / real (totalSegmentsEstimate st))))
   \<and> (isPlaying p \<and> \<not> isBuffering p \<and> audioContextRef p
      \<and> audioOf (segmentAt st (currentSegmentIndex p)) = Some buf
      \<and> currentSegmentIndex p < totalSegmentsEstimate st
      \<and> startTimeRef p \<le> now \<and> 0 < duration buf
    \<longrightarrow> updateProgress st now p =
          Some (max 0 (min 1
            ((real (currentSegmentIndex p) + min 1 ((now - startTimeRef p) / duration buf))
               / real (totalSegmentsEstimate st)))))"
proof -
  let ?v = "(real (currentSegmentIndex p) + min 1 ((now - startTimeRef p) / duration buf))
               / real (totalSegmentsEstimate st)"
  have a: "isPlaying p \<and> \<not> isBuffering p \<and> audioContextRef p
      \<and> audioOf (segmentAt st (currentSegmentIndex p)) = Some buf
    \<longrightarrow> updateProgress st now p = Some ?v
        \<and> smoothProgress (animationFrame st now p s) = ?v
        \<and> InlineMap_progress (smoothProgress (animationFrame st now p s)) = max 0 (min 1 ?v)"
    by (simp add: updateProgress_playing animationFrame_def InlineMap_progress_def)
  have b: "isPlaying p \<and> \<not> isBuffering p \<and> audioContextRef p
      \<and> audioOf (segmentAt st (currentSegmentIndex p)) = Some buf
      \<and> currentSegmentIndex p < totalSegmentsEstimate st
      \<and> startTimeRef p \<le> now \<and> 0 < duration buf
    \<longrightarrow> updateProgress st now p = Some (max 0 (min 1 ?v))"
  proof
    assume h: "isPlaying p \<and> \<not> isBuffering p \<and> audioContextRef p
      \<and> audioOf (segmentAt st (currentSegmentIndex p)) = Some buf
      \<and> currentSegmentIndex p < totalSegmentsEstimate st
      \<and> startTimeRef p \<le> now \<and> 0 < duration buf"
    then have "0 \<le> ?v" "?v \<le> 1"
      using progress_in_unit_interval[of "currentSegmentIndex p" "totalSegmentsEstimate st"
              "now - startTimeRef p" "duration buf"]
      by simp_all
    then have "max 0 (min 1 ?v) = ?v" by simp
    with h show "updateProgress st now p = Some (max 0 (min 1 ?v))"
      by (simp add: updateProgress_playing)
  qed
  from a b show ?thesis by blast
qed

theorem progress_signal_witness:
  "isPlaying playingFirst \<and> \<not> isBuffering playingFirst \<and> audioContextRef playingFirst
   \<and> audioOf (segmentAt storyOne (currentSegmentIndex playingFirst)) = Some \<lparr>duration = 20\<rparr>
   \<and> updateProgress storyOne 10 playingFirst = Some (1 / 16)
   \<and> smoothProgress (animationFrame storyOne 10 playingFirst App_initial) = 1 / 16
   \<and> InlineMap_progress (smoothProgress (animationFrame storyOne 10 playingFirst App_initial)) = 1 / 16
   \<and> updateProgress storyOne 40 playingFirst = Some (1 / 4)"
  using progress_signal[of playingFirst storyOne "\<lparr>duration = 20\<rparr>" 10 App_initial]
    progress_signal[of playingFirst storyOne "\<lparr>duration = 20\<rparr>" 40 App_initial]
  by (simp add: player_defs example_defs App_initial_def)


subsection \<open>Buffering at a chapter boundary\<close>

lemma handleSegmentEnd_buffers:
  assumes "indexRef p + 1 < totalSegmentsEstimate st \<or> segmentAt st (indexRef p + 1) \<noteq> None"
    and "audioOf (segmentAt st (indexRef p + 1)) = None"
  shows "handleSegmentEnd st now p =
           p\<lparr>currentSegmentIndex := indexRef p + 1, segmentOffsetRef := 0, isBuffering := True\<rparr>"
  using assms by (auto simp: handleSegmentEnd_def Let_def)

lemma updateProgress_buffering: "isBuffering p \<Longrightarrow> updateProgress st now p = None"
  by (simp add: updateProgress_def split: option.splits)

lemma bufferingEffect_resumes:
  assumes "isBuffering p" "isPlaying p"
    and "audioOf (segmentAt st (currentSegmentIndex p)) = Some buf"
  shows "bufferingEffect st now p =
           p\<lparr>isBuffering := False, audioContextRef := True,
             sourceRef := Some \<lparr>buffer = buf, startOffset = 0\<rparr>, startTimeRef := now\<rparr>"
  using assms by (simp add: bufferingEffect_def playSegment_def stopAudio_def Let_def)

lemma render_indexRef: "indexRef (render st now p) = currentSegmentIndex (render st now p)"
  by (simp add: render_def bufferingEffect_def indexRefEffect_def playSegment_def stopAudio_def
                Let_def
           split: option.splits)

lemma render_resumes:
  assumes "isBuffering p" "isPlaying p"
    and "audioOf (segmentAt st (currentSegmentIndex p)) = Some buf"
  shows "render st now p =
           p\<lparr>indexRef := currentSegmentIndex p, isBuffering := False, audioContextRef := True,
             sourceRef := Some \<lparr>buffer = buf, startOffset = 0\<rparr>, startTimeRef := now\<rparr>"
proof -
  have "render st now p = bufferingEffect st now (indexRefEffect p)" by (simp add: render_def)
  also have "\<dots> = (indexRefEffect p)\<lparr>isBuffering := False, audioContextRef := True,
             sourceRef := Some \<lparr>buffer = buf, startOffset = 0\<rparr>, startTimeRef := now\<rparr>"
    using assms by (intro bufferingEffect_resumes) (simp_all add: indexRefEffect_def)
  finally show ?thesis by (simp add: indexRefEffect_def)
qed

text \<open>
  C6. After every render \<open>indexRef\<close> is the cursor, so the handler for the end of a chapter
  works on the chapter under the cursor. In an index-contiguous story (as every story is in
  a run whose stories are created while no attempt is in flight): when playback reaches
  the end of the current chapter and a next chapter is expected (its position is below the
  estimate, or a segment is stored there) but the story holds no audio for that chapter,
  the engine moves its cursor to the next chapter and enters buffering; while it buffers no
  animation frame emits a progress value, so the stored progress does not advance. The end
  of the sounding source, at most half a second before its duration has elapsed, is what
  calls the handler. When a later render finds audio for the chapter under the cursor and
  the engine is still set to play, buffering is cleared and that chapter's audio starts at
  offset 0, with the start time set to the current clock.
\<close>

theorem buffering_at_boundary:
  "indexRef (render st0 t0 p0) = currentSegmentIndex (render st0 t0 p0)
   \<and> (contiguous st \<and> indexRef (p::Player) = currentSegmentIndex p
      \<and> (currentSegmentIndex p + 1 < totalSegmentsEstimate st
          \<or> segmentAt st (currentSegmentIndex p + 1) \<noteq> None)
      \<and> chapterAudio st (currentSegmentIndex p + 2) = None
    \<longrightarrow> isBuffering (handleSegmentEnd st now p)
        \<and> currentSegmentIndex (handleSegmentEnd st now p) = currentSegmentIndex p + 1
        \<and> isPlaying (handleSegmentEnd st now p) = isPlaying p
        \<and> updateProgress st1 t1 (handleSegmentEnd st now p) = None
        \<and> animationFrame st1 t1 (handleSegmentEnd st now p) s = s)
   \<and> (sourceRef p = Some src \<and> audioContextRef p
      \<and> duration (buffer src) - 0.5 \<le> now - startTimeRef p
    \<longrightarrow> onended st now p = handleSegmentEnd st now p)
   \<and> (contiguous st2 \<and> isBuffering (q::Player) \<and> isPlaying q
      \<and> chapterAudio st2 (currentSegmentIndex q + 1) = Some buf
    \<longrightarrow> \<not> isBuffering (render st2 t2 q)
        \<and> isPlaying (render st2 t2 q)
        \<and> currentSegmentIndex (render st2 t2 q) = currentSegmentIndex q
        \<and> sourceRef (render st2 t2 q) = Some \<lparr>buffer = buf, startOffset = 0\<rparr>
        \<and> startTimeRef (render st2 t2 q) = t2)
   \<and> (contiguous st \<and> contiguous st2 \<and> isPlaying p \<and> indexRef p = currentSegmentIndex p
      \<and> (currentSegmentIndex p + 1 < totalSegmentsEstimate st
          \<or> segmentAt st (currentSegmentIndex p + 1) \<noteq> None)
      \<and> chapterAudio st (currentSegmentIndex p + 2) = None
      \<and> chapterAudio st2 (currentSegmentIndex p + 2) = Some buf
    \<longrightarrow> \<not> isBuffering (render st2 t2 (handleSegmentEnd st now p))
        \<and> currentSegmentIndex (render st2 t2 (handleSegmentEnd st now p))
            = currentSegmentIndex p + 1
        \<and> sourceRef (render st2 t2 (handleSegmentEnd st now p))
            = Some \<lparr>buffer = buf, startOffset = 0\<rparr>
        \<and> startTimeRef (render st2 t2 (handleSegmentEnd st now p)) = t2)
   \<and> (freshStarts App_initial evs \<and> story (run evs) = Some st3 \<longrightarrow> contiguous st3)"
proof -
  have tie: "indexRef (render st0 t0 p0) = currentSegmentIndex (render st0 t0 p0)"
    by (rule render_indexRef)
  have enter: "contiguous st \<and> indexRef p = currentSegmentIndex p
      \<and> (currentSegmentIndex p + 1 < totalSegmentsEstimate st
          \<or> segmentAt st (currentSegmentIndex p + 1) \<noteq> None)
      \<and> chapterAudio st (currentSegmentIndex p + 2) = None
    \<longrightarrow> isBuffering (handleSegmentEnd st now p)
        \<and> currentSegmentIndex (handleSegmentEnd st now p) = currentSegmentIndex p + 1
        \<and> isPlaying (handleSegmentEnd st now p) = isPlaying p
        \<and> updateProgress st1 t1 (handleSegmentEnd st now p) = None
        \<and> animationFrame st1 t1 (handleSegmentEnd st now p) s = s"
  proof
    assume h: "contiguous st \<and> indexRef p = currentSegmentIndex p
      \<and> (currentSegmentIndex p + 1 < totalSegmentsEstimate st
          \<or> segmentAt st (currentSegmentIndex p + 1) \<noteq> None)
      \<and> chapterAudio st (currentSegmentIndex p + 2) = None"
    then have "chapterAudio st (Suc (indexRef p + 1)) = None" by simp
    then have none: "audioOf (segmentAt st (indexRef p + 1)) = None"
      using h chapterAudio_contiguous[of st "indexRef p + 1"] by simp
    have eq: "handleSegmentEnd st now p =
           p\<lparr>currentSegmentIndex := indexRef p + 1, segmentOffsetRef := 0, isBuffering := True\<rparr>"
      using h none by (intro handleSegmentEnd_buffers) simp_all
    have "updateProgress st1 t1 (handleSegmentEnd st now p) = None"
      by (rule updateProgress_buffering) (simp add: eq)
    then show "isBuffering (handleSegmentEnd st now p)
        \<and> currentSegmentIndex (handleSegmentEnd st now p) = currentSegmentIndex p + 1
        \<and> isPlaying (handleSegmentEnd st now p) = isPlaying p
        \<and> updateProgress st1 t1 (handleSegmentEnd st now p) = None
        \<and> animationFrame st1 t1 (handleSegmentEnd st now p) s = s"
      using h by (simp add: eq animationFrame_def)
  qed
  have ended: "sourceRef p = Some src \<and> audioContextRef p
      \<and> duration (buffer src) - 0.5 \<le> now - startTimeRef p
    \<longrightarrow> onended st now p = handleSegmentEnd st now p"
    by (simp add: onended_def)
  have resume: "\<And>q::Player. contiguous st2 \<and> isBuffering q \<and> isPlaying q
      \<and> chapterAudio st2 (currentSegmentIndex q + 1) = Some buf
    \<longrightarrow> \<not> isBuffering (render st2 t2 q)
        \<and> isPlaying (render st2 t2 q)
        \<and> currentSegmentIndex (render st2 t2 q) = currentSegmentIndex q
        \<and> sourceRef (render st2 t2 q) = Some \<lparr>buffer = buf, startOffset = 0\<rparr>
        \<and> startTimeRef (render st2 t2 q) = t2"
  proof
    fix q :: Player
    assume h: "contiguous st2 \<and> isBuffering q \<and> isPlaying q
      \<and> chapterAudio st2 (currentSegmentIndex q + 1) = Some buf"
    then have "audioOf (segmentAt st2 (currentSegmentIndex q)) = Some buf"
      using chapterAudio_contiguous[of st2 "currentSegmentIndex q"] by simp
    with h have "render st2 t2 q =
           q\<lparr>indexRef := currentSegmentIndex q, isBuffering := False, audioContextRef := True,
             sourceRef := Some \<lparr>buffer = buf, startOffset = 0\<rparr>, startTimeRef := t2\<rparr>"
      by (intro render_resumes) simp_all
    with h show "\<not> isBuffering (render st2 t2 q)
        \<and> isPlaying (render st2 t2 q)
        \<and> currentSegmentIndex (render st2 t2 q) = currentSegmentIndex q
        \<and> sourceRef (render st2 t2 q) = Some \<lparr>buffer = buf, startOffset = 0\<rparr>
        \<and> startTimeRef (render st2 t2 q) = t2"
      by simp
  qed
  have chain: "contiguous st \<and> contiguous st2 \<and> isPlaying p \<and> indexRef p = currentSegmentIndex p
      \<and> (currentSegmentIndex p + 1 < totalSegmentsEstimate st
          \<or> segmentAt st (currentSegmentIndex p + 1) \<noteq> None)
      \<and> chapterAudio st (currentSegmentIndex p + 2) = None
      \<and> chapterAudio st2 (currentSegmentIndex p + 2) = Some buf
    \<longrightarrow> \<not> isBuffering (render st2 t2 (handleSegmentEnd st now p))
        \<and> currentSegmentIndex (render st2 t2 (handleSegmentEnd st now p))
            = currentSegmentIndex p + 1
        \<and> sourceRef (render st2 t2 (handleSegmentEnd st now p))
            = Some \<lparr>buffer = buf, startOffset = 0\<rparr>
        \<and> startTimeRef (render st2 t2 (handleSegmentEnd st now p)) = t2"
  proof
    assume h: "contiguous st \<and> contiguous st2 \<and> isPlaying p
      \<and> indexRef p = currentSegmentIndex p
      \<and> (currentSegmentIndex p + 1 < totalSegmentsEstimate st
          \<or> segmentAt st (currentSegmentIndex p + 1) \<noteq> None)
      \<and> chapterAudio st (currentSegmentIndex p + 2) = None
      \<and> chapterAudio st2 (currentSegmentIndex p + 2) = Some buf"
    let ?q = "handleSegmentEnd st now p"
    have q: "isBuffering ?q" "currentSegmentIndex ?q = currentSegmentIndex p + 1"
      "isPlaying ?q"
      using enter h by simp_all
    then have "contiguous st2 \<and> isBuffering ?q \<and> isPlaying ?q
      \<and> chapterAudio st2 (currentSegmentIndex ?q + 1) = Some buf"
      using h by simp
    with resume[of ?q] q(2)
    show "\<not> isBuffering (render st2 t2 ?q)
        \<and> currentSegmentIndex (render st2 t2 ?q) = currentSegmentIndex p + 1
        \<and> sourceRef (render st2 t2 ?q) = Some \<lparr>buffer = buf, startOffset = 0\<rparr>
        \<and> startTimeRef (render st2 t2 ?q) = t2"
      by simp
  qed
  have fresh: "freshStarts App_initial evs \<and> story (run evs) = Some st3 \<longrightarrow> contiguous st3"
  proof
    assume h: "freshStarts App_initial evs \<and> story (run evs) = Some st3"
    then have "inOrder (run evs)" by (simp add: inOrder_run)
    with h show "contiguous st3" by (simp add: inOrder_def)
  qed
  from tie enter ended resume[of q] chain fresh show ?thesis by blast
qed


theorem buffering_at_boundary_witness:
  "contiguous storyTwo \<and> contiguous storyThree
   \<and> story (run (journeyA @ [Schedule, TextSettles 0 (Resolves 4000 ''A two''),
        AudioSettles 0 (Resolves 5000 \<lparr>duration = 21\<rparr>)])) = Some storyTwo
   \<and> currentSegmentIndex playingSecond = 1
   \<and> indexRef playingSecond = 1
   \<and> chapterAudio storyTwo 3 = None
   \<and> onended storyTwo 46 playingSecond = handleSegmentEnd storyTwo 46 playingSecond
   \<and> isBuffering (handleSegmentEnd storyTwo 46 playingSecond)
   \<and> isPlaying (handleSegmentEnd storyTwo 46 playingSecond)
   \<and> currentSegmentIndex (handleSegmentEnd storyTwo 46 playingSecond) = 2
   \<and> animationFrame storyTwo 47 (handleSegmentEnd storyTwo 46 playingSecond) App_initial
       = App_initial
   \<and> chapterAudio storyThree 3 = Some \<lparr>duration = 22\<rparr>
   \<and> \<not> isBuffering (render storyThree 50 (handleSegmentEnd storyTwo 46 playingSecond))
   \<and> sourceRef (render storyThree 50 (handleSegmentEnd storyTwo 46 playingSecond))
       = Some \<lparr>buffer = \<lparr>duration = 22\<rparr>, startOffset = 0\<rparr>
   \<and> startTimeRef (render storyThree 50 (handleSegmentEnd storyTwo 46 playingSecond)) = 50
   \<and> indexRef (render storyThree 50 (handleSegmentEnd storyTwo 46 playingSecond)) = 2"
  using buffering_at_boundary
    [where p = playingSecond and st = storyTwo and now = 46 and ?st1.0 = storyTwo and ?t1.0 = 47
       and s = App_initial and src = "\<lparr>buffer = \<lparr>duration = 21\<rparr>, startOffset = 0\<rparr>"
       and q = "handleSegmentEnd storyTwo 46 playingSecond" and ?st2.0 = storyThree
       and buf = "\<lparr>duration = 22\<rparr>" and ?t2.0 = 50
       and ?st0.0 = storyThree and ?t0.0 = 50
       and ?p0.0 = "handleSegmentEnd storyTwo 46 playingSecond"
       and evs = "journeyA @ [Schedule, TextSettles 0 (Resolves 4000 ''A two''),
        AudioSettles 0 (Resolves 5000 \<lparr>duration = 21\<rparr>)]" and ?st3.0 = storyTwo]
  by (simp add: app_defs player_defs example_defs contiguous_def chapterAudio_def upt_conv_Cons
                storesStory_def)

text \<open>
  Without contiguity the engine need not buffer: in the story that holds chapter 1 of
  journey B and chapter 3 of the discarded journey A, with an estimate of 2, the first
  chapter ends while chapter 2 has no audio, and the engine plays what is stored at the next
  array position, chapter 3 of journey A.
\<close>

theorem buffering_at_boundary_counterexample:
  "story (run staleRun) = Some staleStory
   \<and> currentSegmentIndex (render staleStory 5 (togglePlayback staleStory 5 Player_initial)) = 0
   \<and> indexRef (render staleStory 5 (togglePlayback staleStory 5 Player_initial)) = 0
   \<and> 0 + 1 < totalSegmentsEstimate staleStory
   \<and> chapterAudio staleStory 2 = None
   \<and> \<not> isBuffering
         (onended staleStory 23 (render staleStory 5 (togglePlayback staleStory 5 Player_initial)))
   \<and> sourceRef
         (onended staleStory 23 (render staleStory 5 (togglePlayback staleStory 5 Player_initial)))
       = Some \<lparr>buffer = \<lparr>duration = 22\<rparr>, startOffset = 0\<rparr>
   \<and> chapterAudio staleStory 3 = Some \<lparr>duration = 22\<rparr>"
  by (simp add: app_defs player_defs example_defs chapterAudio_def)


subsection \<open>Pause and resume\<close>

lemma togglePlayback_pause:
  assumes "isPlaying p" "\<not> isBuffering p" "audioContextRef p"
  shows "togglePlayback st now p =
           p\<lparr>segmentOffsetRef := now - startTimeRef p, sourceRef := None,
             isPlaying := False, autoScroll := False\<rparr>"
  using assms by (simp add: togglePlayback_def stopAudio_def Let_def)

lemma togglePlayback_resume:
  assumes "\<not> isPlaying p" "audioOf (segmentAt st (currentSegmentIndex p)) = Some buf"
  shows "togglePlayback st now p =
           p\<lparr>isPlaying := True, isBuffering := False, audioContextRef := True,
             sourceRef := Some \<lparr>buffer = buf, startOffset = segmentOffsetRef p\<rparr>,
             startTimeRef := now - segmentOffsetRef p, autoScroll := True\<rparr>"
  using assms by (simp add: togglePlayback_def playSegment_def stopAudio_def Let_def)

text \<open>
  C8. Toggling playback while a chapter is playing (not buffering) stops the source and
  records the offset within the chapter, the audio clock minus the recorded start time.
  Toggling again, whenever that is, starts a source at the recorded offset, not at 0, for
  the audio buffer that the story then holds at the cursor's array position; the start time
  is set so that the elapsed time continues from the offset. The buffer is a stored one:
  the engine resumes from the story it is given and requests nothing. It is the buffer of
  the source that was paused whenever the story still holds the paused chapter at that
  position, and it does: within a journey, in a run whose stories are created while no
  attempt is in flight, chapters are only appended, so every array position keeps its
  chapter.
\<close>

theorem pause_resume_offset:
  "(isPlaying p \<and> \<not> isBuffering p \<and> audioContextRef p
    \<longrightarrow> \<not> isPlaying (togglePlayback st1 t1 p)
        \<and> sourceRef (togglePlayback st1 t1 p) = None
        \<and> segmentOffsetRef (togglePlayback st1 t1 p) = t1 - startTimeRef p
        \<and> currentSegmentIndex (togglePlayback st1 t1 p) = currentSegmentIndex p)
   \<and> (isPlaying p \<and> \<not> isBuffering p \<and> audioContextRef p
      \<and> audioOf (segmentAt st2 (currentSegmentIndex p)) = Some buf
    \<longrightarrow> isPlaying (togglePlayback st2 t2 (togglePlayback st1 t1 p))
        \<and> \<not> isBuffering (togglePlayback st2 t2 (togglePlayback st1 t1 p))
        \<and> currentSegmentIndex (togglePlayback st2 t2 (togglePlayback st1 t1 p))
            = currentSegmentIndex p
        \<and> sourceRef (togglePlayback st2 t2 (togglePlayback st1 t1 p))
            = Some \<lparr>buffer = buf, startOffset = t1 - startTimeRef p\<rparr>
        \<and> t2 - startTimeRef (togglePlayback st2 t2 (togglePlayback st1 t1 p))
            = t1 - startTimeRef p)
   \<and> (isPlaying p \<and> \<not> isBuffering p \<and> audioContextRef p
      \<and> sourceRef p = Some src
      \<and> segmentAt st1 (currentSegmentIndex p) = Some seg
      \<and> audioBuffer seg = Some (buffer src)
      \<and> segmentAt st2 (currentSegmentIndex p) = Some seg
    \<longrightarrow> sourceRef (togglePlayback st2 t2 (togglePlayback st1 t1 p))
            = Some \<lparr>buffer = buffer src, startOffset = t1 - startTimeRef p\<rparr>)
   \<and> (freshStarts App_initial evs \<and> list_all inJourney evs'
      \<and> story (run evs) = Some st1 \<and> story (run (evs @ evs')) = Some st2
      \<and> k < length (segments st1)
    \<longrightarrow> segmentAt st2 k = segmentAt st1 k)"
proof -
  have a: "isPlaying p \<and> \<not> isBuffering p \<and> audioContextRef p
    \<longrightarrow> \<not> isPlaying (togglePlayback st1 t1 p)
        \<and> sourceRef (togglePlayback st1 t1 p) = None
        \<and> segmentOffsetRef (togglePlayback st1 t1 p) = t1 - startTimeRef p
        \<and> currentSegmentIndex (togglePlayback st1 t1 p) = currentSegmentIndex p"
    by (simp add: togglePlayback_pause)
  have b: "\<And>buf. isPlaying p \<and> \<not> isBuffering p \<and> audioContextRef p
      \<and> audioOf (segmentAt st2 (currentSegmentIndex p)) = Some buf
    \<longrightarrow> isPlaying (togglePlayback st2 t2 (togglePlayback st1 t1 p))
        \<and> \<not> isBuffering (togglePlayback st2 t2 (togglePlayback st1 t1 p))
        \<and> currentSegmentIndex (togglePlayback st2 t2 (togglePlayback st1 t1 p))
            = currentSegmentIndex p
        \<and> sourceRef (togglePlayback st2 t2 (togglePlayback st1 t1 p))
            = Some \<lparr>buffer = buf, startOffset = t1 - startTimeRef p\<rparr>
        \<and> t2 - startTimeRef (togglePlayback st2 t2 (togglePlayback st1 t1 p))
            = t1 - startTimeRef p"
  proof
    fix buf
    assume h: "isPlaying p \<and> \<not> isBuffering p \<and> audioContextRef p
      \<and> audioOf (segmentAt st2 (currentSegmentIndex p)) = Some buf"
    let ?p1 = "togglePlayback st1 t1 p"
    have p1: "?p1 = p\<lparr>segmentOffsetRef := t1 - startTimeRef p, sourceRef := None,
             isPlaying := False, autoScroll := False\<rparr>"
      using h by (simp add: togglePlayback_pause)
    have "\<not> isPlaying ?p1" "audioOf (segmentAt st2 (currentSegmentIndex ?p1)) = Some buf"
      using h by (simp_all add: p1)
    from togglePlayback_resume[OF this, of t2]
    show "isPlaying (togglePlayback st2 t2 ?p1)
        \<and> \<not> isBuffering (togglePlayback st2 t2 ?p1)
        \<and> currentSegmentIndex (togglePlayback st2 t2 ?p1) = currentSegmentIndex p
        \<and> sourceRef (togglePlayback st2 t2 ?p1)
            = Some \<lparr>buffer = buf, startOffset = t1 - startTimeRef p\<rparr>
        \<and> t2 - startTimeRef (togglePlayback st2 t2 ?p1) = t1 - startTimeRef p"
      by (simp add: p1)
  qed
  have c: "isPlaying p \<and> \<not> isBuffering p \<and> audioContextRef p
      \<and> sourceRef p = Some src
      \<and> segmentAt st1 (currentSegmentIndex p) = Some seg
      \<and> audioBuffer seg = Some (buffer src)
      \<and> segmentAt st2 (currentSegmentIndex p) = Some seg
    \<longrightarrow> sourceRef (togglePlayback st2 t2 (togglePlayback st1 t1 p))
            = Some \<lparr>buffer = buffer src, startOffset = t1 - startTimeRef p\<rparr>"
  proof
    assume h: "isPlaying p \<and> \<not> isBuffering p \<and> audioContextRef p
      \<and> sourceRef p = Some src
      \<and> segmentAt st1 (currentSegmentIndex p) = Some seg
      \<and> audioBuffer seg = Some (buffer src)
      \<and> segmentAt st2 (currentSegmentIndex p) = Some seg"
    then have "audioOf (segmentAt st2 (currentSegmentIndex p)) = Some (buffer src)"
      by (simp add: audioOf_def)
    with h b[of "buffer src"]
    show "sourceRef (togglePlayback st2 t2 (togglePlayback st1 t1 p))
            = Some \<lparr>buffer = buffer src, startOffset = t1 - startTimeRef p\<rparr>"
      by simp
  qed
  have d: "freshStarts App_initial evs \<and> list_all inJourney evs'
      \<and> story (run evs) = Some st1 \<and> story (run (evs @ evs')) = Some st2
      \<and> k < length (segments st1)
    \<longrightarrow> segmentAt st2 k = segmentAt st1 k"
    using positions_stable by blast
  from a b[of buf] c d show ?thesis by blast
qed

theorem pause_resume_offset_witness:
  "isPlaying playingFirst \<and> \<not> isBuffering playingFirst \<and> audioContextRef playingFirst
   \<and> sourceRef playingFirst = Some \<lparr>buffer = \<lparr>duration = 20\<rparr>, startOffset = 0\<rparr>
   \<and> segmentAt storyOne (currentSegmentIndex playingFirst)
       = Some \<lparr>index = 1, segText = ''A one'', audioBuffer = Some \<lparr>duration = 20\<rparr>\<rparr>
   \<and> segmentAt storyTwo (currentSegmentIndex playingFirst)
       = Some \<lparr>index = 1, segText = ''A one'', audioBuffer = Some \<lparr>duration = 20\<rparr>\<rparr>
   \<and> freshStarts App_initial journeyA
   \<and> story (run journeyA) = Some storyOne
   \<and> story (run (journeyA @ [Schedule, TextSettles 0 (Resolves 4000 ''A two''),
        AudioSettles 0 (Resolves 5000 \<lparr>duration = 21\<rparr>)])) = Some storyTwo
   \<and> segmentOffsetRef (togglePlayback storyOne 12 playingFirst) = 7
   \<and> sourceRef (togglePlayback storyOne 12 playingFirst) = None
   \<and> sourceRef (togglePlayback storyTwo 60 (togglePlayback storyOne 12 playingFirst))
       = Some \<lparr>buffer = \<lparr>duration = 20\<rparr>, startOffset = 7\<rparr>
   \<and> startTimeRef (togglePlayback storyTwo 60 (togglePlayback storyOne 12 playingFirst)) = 53
   \<and> currentSegmentIndex (togglePlayback storyTwo 60 (togglePlayback storyOne 12 playingFirst)) = 0"
  using pause_resume_offset
    [where p = playingFirst and ?st1.0 = storyOne and ?t1.0 = 12 and ?st2.0 = storyTwo
       and ?t2.0 = 60 and buf = "\<lparr>duration = 20\<rparr>"
       and src = "\<lparr>buffer = \<lparr>duration = 20\<rparr>, startOffset = 0\<rparr>"
       and seg = "\<lparr>index = 1, segText = ''A one'', audioBuffer = Some \<lparr>duration = 20\<rparr>\<rparr>"
       and evs = journeyA
       and evs' = "[Schedule, TextSettles 0 (Resolves 4000 ''A two''),
        AudioSettles 0 (Resolves 5000 \<lparr>duration = 21\<rparr>)]" and k = 0]
  by (simp add: app_defs player_defs example_defs storesStory_def)

text \<open>
  In a story with a gap the resumed audio can be another chapter's: the story holds chapter
  1 of journey C and chapter 4 of the discarded journey A; chapter 4, at array position 1,
  is paused at offset 7; chapter 3 arrives and is sorted in front of it; resuming starts
  chapter 3's audio at offset 7.
\<close>

theorem pause_resume_offset_counterexample:
  "story (run gapRun) = Some gapStory
   \<and> story (run filledRun) = Some filledStory
   \<and> isPlaying playingGap \<and> \<not> isBuffering playingGap
   \<and> currentSegmentIndex playingGap = 1
   \<and> segmentAt gapStory 1
       = Some \<lparr>index = 4, segText = ''A four'', audioBuffer = Some \<lparr>duration = 24\<rparr>\<rparr>
   \<and> sourceRef playingGap = Some \<lparr>buffer = \<lparr>duration = 24\<rparr>, startOffset = 0\<rparr>
   \<and> segmentOffsetRef (togglePlayback gapStory 25 playingGap) = 7
   \<and> segmentAt filledStory 1
       = Some \<lparr>index = 3, segText = ''C three'', audioBuffer = Some \<lparr>duration = 33\<rparr>\<rparr>
   \<and> sourceRef (togglePlayback filledStory 40 (togglePlayback gapStory 25 playingGap))
       = Some \<lparr>buffer = \<lparr>duration = 33\<rparr>, startOffset = 7\<rparr>"
  by (simp add: app_defs player_defs example_defs)


section \<open>Resetting the journey\<close>

lemma indicator_step:
  "isBackgroundGenerating s = isGeneratingRef s \<Longrightarrow>
     isBackgroundGenerating (step s e) = isGeneratingRef (step s e)"
  by (cases e)
     (auto simp: schedulerEffect_def generateNextSegment_def textSettles_def audioSettles_def
                 finallyRelease_def handleGenerateStory_begin_def handleGenerateStory_settle_def
                 startFailed_def handleReset_def
           split: option.splits settled.splits phase.splits)

lemma indicator_foldl:
  "isBackgroundGenerating s = isGeneratingRef s \<Longrightarrow>
     isBackgroundGenerating (foldl step s evs) = isGeneratingRef (foldl step s evs)"
  by (induction evs arbitrary: s) (simp_all add: indicator_step)

lemma indicator_run: "isBackgroundGenerating (run evs) = isGeneratingRef (run evs)"
  unfolding run_def by (rule indicator_foldl) (simp add: App_initial_def)

lemma handleReset_idle:
  assumes "inFlight s = []" "\<not> isGeneratingRef s" "\<not> isBackgroundGenerating s"
    and "\<not> isKeyRequired s"
  shows "handleReset s = App_initial"
  using assms by (simp add: handleReset_def App_initial_def)

lemma story_None_textSettles: "story s = None \<Longrightarrow> story (textSettles k req s) = None"
  by (simp add: textSettles_def finallyRelease_def split: settled.splits)

lemma story_None_audioSettles: "story s = None \<Longrightarrow> story (audioSettles k req s) = None"
  by (simp add: audioSettles_def finallyRelease_def insertSegment_def
           split: settled.splits phase.splits)

text \<open>
  C7. Resetting the journey clears the story (all chapters) and the route, sets the current
  playing index and the progress value to 0, clears the error message and returns the
  application to the planning state, in which the scheduler schedules nothing; the player
  is unmounted, which stops the audio source, and a player mounted later starts at chapter
  position 0, not playing. The reset does not touch the generation lock nor an attempt in
  flight: the lock stays as it was. When no attempt is in flight (and no API key prompt is
  pending) the state after the reset is the initial state. A request of the discarded
  journey that settles while there is no story leaves the story absent.
\<close>

theorem reset_clears_journey:
  "story (handleReset s) = None \<and> route (handleReset s) = None
   \<and> currentPlayingIndex (handleReset s) = 0 \<and> smoothProgress (handleReset s) = 0
   \<and> appState (handleReset s) = PLANNING \<and> generationError (handleReset s) = None
   \<and> scheduled (handleReset s) = None
   \<and> sourceRef (unmount p) = None
   \<and> currentSegmentIndex Player_initial = 0 \<and> \<not> isPlaying Player_initial
   \<and> isGeneratingRef (handleReset s) = isGeneratingRef s
   \<and> inFlight (handleReset s) = inFlight s
   \<and> (inFlight (run evs) = [] \<and> \<not> isKeyRequired (run evs)
    \<longrightarrow> handleReset (run evs) = App_initial)
   \<and> (story s = None
    \<longrightarrow> story (textSettles k treq s) = None \<and> story (audioSettles k areq s) = None)"
proof -
  have a: "story (handleReset s) = None \<and> route (handleReset s) = None
   \<and> currentPlayingIndex (handleReset s) = 0 \<and> smoothProgress (handleReset s) = 0
   \<and> appState (handleReset s) = PLANNING \<and> generationError (handleReset s) = None
   \<and> isGeneratingRef (handleReset s) = isGeneratingRef s
   \<and> inFlight (handleReset s) = inFlight s"
    by (simp add: handleReset_def)
  have b: "scheduled (handleReset s) = None"
    by (simp add: scheduled_def handleReset_def)
  have c: "sourceRef (unmount p) = None
   \<and> currentSegmentIndex Player_initial = 0 \<and> \<not> isPlaying Player_initial"
    by (simp add: unmount_def stopAudio_def Player_initial_def)
  have d: "inFlight (run evs) = [] \<and> \<not> isKeyRequired (run evs)
    \<longrightarrow> handleReset (run evs) = App_initial"
  proof
    assume h: "inFlight (run evs) = [] \<and> \<not> isKeyRequired (run evs)"
    have "singleFlight (run evs)" by (rule singleFlight_run)
    with h have "\<not> isGeneratingRef (run evs)" by (simp add: singleFlight_def)
    moreover from this have "\<not> isBackgroundGenerating (run evs)" by (simp add: indicator_run)
    ultimately show "handleReset (run evs) = App_initial"
      using h by (simp add: handleReset_idle)
  qed
  have e: "story s = None
    \<longrightarrow> story (textSettles k treq s) = None \<and> story (audioSettles k areq s) = None"
    by (simp add: story_None_textSettles story_None_audioSettles)
  from a b c d e show ?thesis by blast
qed

theorem reset_clears_journey_witness:
  "inFlight (run (journeyA @ [Schedule, TextSettles 0 (Resolves 4000 ''A two''),
        AudioSettles 0 (Resolves 5000 \<lparr>duration = 21\<rparr>), SegmentChange 1,
        SmoothProgressUpdate (3 / 10)])) = []
   \<and> handleReset (run (journeyA @ [Schedule, TextSettles 0 (Resolves 4000 ''A two''),
        AudioSettles 0 (Resolves 5000 \<lparr>duration = 21\<rparr>), SegmentChange 1,
        SmoothProgressUpdate (3 / 10)])) = App_initial
   \<and> story (handleReset (run (journeyA @ [Schedule]))) = None
   \<and> story (audioSettles 0 (Resolves 5000 \<lparr>duration = 21\<rparr>)
        (textSettles 0 (Resolves 4000 ''A two'') (handleReset (run (journeyA @ [Schedule])))))
       = None
   \<and> sourceRef (unmount playingFirst) = None"
  using reset_clears_journey
    [where s = "run (journeyA @ [Schedule])" and p = playingFirst
       and evs = "journeyA @ [Schedule, TextSettles 0 (Resolves 4000 ''A two''),
        AudioSettles 0 (Resolves 5000 \<lparr>duration = 21\<rparr>), SegmentChange 1,
        SmoothProgressUpdate (3 / 10)]"]
    reset_clears_journey
    [where s = "textSettles 0 (Resolves 4000 ''A two'') (handleReset (run (journeyA @ [Schedule])))"
       and k = 0 and areq = "Resolves 5000 \<lparr>duration = 21\<rparr>" and evs = "[]"]
  by (simp add: app_defs player_defs example_defs)

text \<open>
  With an attempt in flight the reset does not release the lock, so the state is not the
  initial one; and the chapter that this attempt produces after the next journey has
  started is stored in, and presented with, the new journey's story.
\<close>

theorem reset_clears_journey_counterexample:
  "isGeneratingRef (handleReset (run (journeyA @ [Schedule])))
   \<and> \<not> isGeneratingRef App_initial
   \<and> handleReset (run (journeyA @ [Schedule])) \<noteq> App_initial
   \<and> story (run staleRun) = Some staleStory
   \<and> segText (segments staleStory ! 1) = ''A three''"
  by (simp add: app_defs example_defs)


end
